theory Spec2Isabelle
  imports Complex_Main
begin

section \<open>Python values and errors\<close>

text \<open>
  The program is MicroPython. Its integers are unbounded and are modelled as \<open>int\<close>; floor
  division and modulo of Python agree with \<open>div\<close> and \<open>mod\<close> on \<open>int\<close> for the positive
  divisors used here. Every exception the modelled code can raise is a value.
\<close>

datatype py_error = IndexError | ZeroDivisionError | ValueError

definition py_index :: "'a list \<Rightarrow> int \<Rightarrow> py_error + 'a" where
  \<comment> \<open>Subscription \<open>xs[i]\<close>: \<open>i\<close> from \<open>-len(xs)\<close> to \<open>-1\<close> reads from the end.\<close>
  "py_index xs i =
     (if 0 \<le> i \<and> i < int (length xs) then Inr (xs ! nat i)
      else if i < 0 \<and> - int (length xs) \<le> i then Inr (xs ! nat (int (length xs) + i))
      else Inl IndexError)"

definition py_int :: "real \<Rightarrow> int" where
  \<comment> \<open>\<open>int(x)\<close> on a float truncates toward zero.\<close>
  "py_int x = (if 0 \<le> x then \<lfloor>x\<rfloor> else \<lceil>x\<rceil>)"

section \<open>Floating point\<close>

text \<open>
  A Python float is an IEEE 754 binary64 number: a real of the form \<open>m * 2^e\<close> with
  \<open>\<bar>m\<bar> < 2^53\<close> and \<open>e \<ge> -1074\<close>. Every arithmetic operation returns the exact result
  rounded to the nearest such number, ties to the even mantissa; \<open>fl64\<close> is this rounding,
  and a decimal literal \<open>c\<close> of the program is \<open>fl64 c\<close>. The model has no upper end of the
  exponent range, so it follows the code as long as no result exceeds the largest finite
  float; infinities and NaN are not modelled. The library functions \<open>math.log10\<close> and the
  float power are taken to return the correctly rounded result.

  The value-to-pixel scaling, the axis step and the horizontal gridlines are modelled with
  this rounding after every operation. The positions along the x axis and the resampled
  values are kept as the exact expressions of their inputs.
\<close>

definition rne :: "real \<Rightarrow> int" where
  \<comment> \<open>Nearest integer, a tie goes to the even one.\<close>
  "rne y =
     (let f = \<lfloor>y\<rfloor>; d = y - real_of_int f
      in if d < 1 / 2 then f else if 1 / 2 < d then f + 1 else if even f then f else f + 1)"

definition expo :: "real \<Rightarrow> int" where
  \<comment> \<open>Binary exponent of \<open>x\<close>, not below that of the smallest normal number.\<close>
  "expo x = max \<lfloor>log 2 \<bar>x\<bar>\<rfloor> (- 1022)"

definition fl64 :: "real \<Rightarrow> real" where
  "fl64 x =
     (if x = 0 then 0
      else 2 powi (expo x - 52) * real_of_int (rne (x / 2 powi (expo x - 52))))"

text \<open>
  A Python number is an \<open>int\<close> or a \<open>float\<close>. An operation on two ints is exact; in a mixed
  operation the int is converted to a float first.
\<close>

datatype py_num = PyInt int | PyFloat real

fun to_real :: "py_num \<Rightarrow> real" where
  \<comment> \<open>The exact value, as comparisons between an int and a float use it.\<close>
  "to_real (PyInt i) = real_of_int i"
| "to_real (PyFloat x) = x"

fun to_float :: "py_num \<Rightarrow> real" where
  "to_float (PyInt i) = fl64 (real_of_int i)"
| "to_float (PyFloat x) = x"

fun py_mul :: "py_num \<Rightarrow> py_num \<Rightarrow> py_num" where
  "py_mul (PyInt a) (PyInt b) = PyInt (a * b)"
| "py_mul a b = PyFloat (fl64 (to_float a * to_float b))"

fun py_add :: "py_num \<Rightarrow> py_num \<Rightarrow> py_num" where
  "py_add (PyInt a) (PyInt b) = PyInt (a + b)"
| "py_add a b = PyFloat (fl64 (to_float a + to_float b))"

definition py_fdiv :: "real \<Rightarrow> real \<Rightarrow> py_error + real" where
  \<comment> \<open>Division of two floats.\<close>
  "py_fdiv a b = (if b = 0 then Inl ZeroDivisionError else Inr (fl64 (a / b)))"

section \<open>Time zone Europe/Berlin\<close>

definition weekday :: "int \<Rightarrow> int \<Rightarrow> int \<Rightarrow> py_error + int" where
  "weekday year month day =
     (let t = [0, 3, 2, 5, 0, 3, 5, 1, 4, 6, 2, 4];
          year' = (if month < 3 then year - 1 else year)
      in case py_index t (month - 1) of
           Inl e \<Rightarrow> Inl e
         | Inr tm \<Rightarrow>
             Inr ((year' + year' div 4 - year' div 100 + year' div 400 + tm + day) mod 7))"

function last_sunday_loop :: "int \<Rightarrow> int \<Rightarrow> int \<Rightarrow> py_error + int" where
  "last_sunday_loop year month last_day =
     (if last_day > 27 then
        (case weekday year month last_day of
           Inl e \<Rightarrow> Inl e
         | Inr w \<Rightarrow>
             if w = 0 then Inr last_day
             else last_sunday_loop year month (last_day - 1))
      else Inr last_day)"
  by pat_completeness auto
termination
  by (relation "measure (\<lambda>(year, month, last_day). nat (last_day - 27))") auto

declare last_sunday_loop.simps [simp del]

definition last_sunday :: "int \<Rightarrow> int \<Rightarrow> py_error + int" where
  "last_sunday year month = last_sunday_loop year month 31"

type_synonym time_tuple = "int \<times> int \<times> int \<times> int \<times> int \<times> int \<times> int \<times> int"

fun berlin_offset_seconds :: "time_tuple \<Rightarrow> py_error + int" where
  "berlin_offset_seconds (year, month, day, hour, minute, second, wday, yday) =
     (case last_sunday year 3 of
        Inl e \<Rightarrow> Inl e
      | Inr last_sun_mar \<Rightarrow>
          (case last_sunday year 10 of
             Inl e \<Rightarrow> Inl e
           | Inr last_sun_oct \<Rightarrow>
               (let dst =
                  (if 4 \<le> month \<and> month \<le> 9 then True
                   else if month = 3 then
                     (day > last_sun_mar \<or> (day = last_sun_mar \<and> hour \<ge> 2))
                   else if month = 10 then
                     (day < last_sun_oct \<or> (day = last_sun_oct \<and> hour < 3))
                   else False)
                in Inr (if dst then 7200 else 3600))))"


section \<open>History buffer\<close>

record 'a ringbuffer =
  length_rb :: int
  data :: "'a list"

definition RingBuffer :: "int \<Rightarrow> 'a ringbuffer" where
  "RingBuffer n = \<lparr>length_rb = n, data = []\<rparr>"

definition append_rb :: "'a ringbuffer \<Rightarrow> 'a \<Rightarrow> py_error + 'a ringbuffer" where
  \<comment> \<open>\<open>pop(0)\<close> on an empty list raises IndexError.\<close>
  "append_rb self v =
     (if int (length (data self)) \<ge> length_rb self then
        (case data self of
           [] \<Rightarrow> Inl IndexError
         | x # xs \<Rightarrow> Inr (self\<lparr>data := xs @ [v]\<rparr>))
      else Inr (self\<lparr>data := data self @ [v]\<rparr>))"

fun extend :: "'a ringbuffer \<Rightarrow> 'a list \<Rightarrow> py_error + 'a ringbuffer" where
  "extend self [] = Inr self"
| "extend self (v # vs) =
     (case append_rb self v of Inl e \<Rightarrow> Inl e | Inr self' \<Rightarrow> extend self' vs)"

datatype 'a rb_call = Append 'a | Extend "'a list"

fun rb_calls :: "'a ringbuffer \<Rightarrow> 'a rb_call list \<Rightarrow> py_error + 'a ringbuffer" where
  "rb_calls self [] = Inr self"
| "rb_calls self (Append v # cs) =
     (case append_rb self v of Inl e \<Rightarrow> Inl e | Inr self' \<Rightarrow> rb_calls self' cs)"
| "rb_calls self (Extend vs # cs) =
     (case extend self vs of Inl e \<Rightarrow> Inl e | Inr self' \<Rightarrow> rb_calls self' cs)"

fun appended :: "'a rb_call list \<Rightarrow> 'a list" where
  \<comment> \<open>The values a sequence of calls appends, in the order of the calls.\<close>
  "appended [] = []"
| "appended (Append v # cs) = v # appended cs"
| "appended (Extend vs # cs) = vs @ appended cs"

fun py_min :: "real list \<Rightarrow> py_error + real" where
  "py_min [] = Inl ValueError"
| "py_min (x # xs) = Inr (foldl min x xs)"

fun py_max :: "real list \<Rightarrow> py_error + real" where
  "py_max [] = Inl ValueError"
| "py_max (x # xs) = Inr (foldl max x xs)"

definition minmax :: "real ringbuffer \<Rightarrow> py_error + real \<times> real" where
  "minmax self =
     (if data self = [] then Inr (0, 1)
      else case py_min (data self) of
             Inl e \<Rightarrow> Inl e
           | Inr lo \<Rightarrow> (case py_max (data self) of Inl e \<Rightarrow> Inl e | Inr hi \<Rightarrow> Inr (lo, hi)))"

section \<open>Scaling, axis step and resampling\<close>

definition py_truediv :: "real \<Rightarrow> real \<Rightarrow> py_error + real" where
  \<comment> \<open>The quotient of the index arithmetic in resampling, kept exact.\<close>
  "py_truediv a b = (if b = 0 then Inl ZeroDivisionError else Inr (a / b))"

definition py_log10 :: "real \<Rightarrow> py_error + real" where
  "py_log10 x = (if 0 < x then Inr (fl64 (log 10 x)) else Inl ValueError)"

definition py_pow10 :: "int \<Rightarrow> py_num" where
  \<comment> \<open>\<open>10 ** k\<close> for an int \<open>k\<close>: an int when \<open>k \<ge> 0\<close>, a float otherwise.\<close>
  "py_pow10 k = (if 0 \<le> k then PyInt (10 ^ nat k) else PyFloat (fl64 (10 powi k)))"

definition scale :: "real \<Rightarrow> real \<Rightarrow> real \<Rightarrow> int \<Rightarrow> py_error + int" where
  "scale v min_val span' height =
     (case py_fdiv (fl64 (v - min_val)) span' of
        Inl e \<Rightarrow> Inl e
      | Inr q \<Rightarrow> Inr (py_int (fl64 (q * fl64 (real_of_int (height - 1))))))"

fun nice_step_loop :: "real \<Rightarrow> py_num \<Rightarrow> int list \<Rightarrow> py_error + py_num" where
  "nice_step_loop span' magnitude [] = Inr magnitude"
| "nice_step_loop span' magnitude (factor # factors) =
     (let step = py_mul (PyInt factor) magnitude
      in case py_fdiv span' (to_float step) of
           Inl e \<Rightarrow> Inl e
         | Inr q \<Rightarrow> if q \<le> 6 then Inr step else nice_step_loop span' magnitude factors)"

definition nice_step :: "real \<Rightarrow> py_error + py_num" where
  "nice_step span' =
     (let rough = fl64 (span' / 4)
      in case (if rough > 0 then
                 (case py_log10 rough of Inl e \<Rightarrow> Inl e | Inr l \<Rightarrow> Inr (py_pow10 \<lfloor>l\<rfloor>))
               else Inr (PyInt 1)) of
           Inl e \<Rightarrow> Inl e
         | Inr magnitude \<Rightarrow> nice_step_loop span' magnitude [1, 2, 5, 10])"

text \<open>
  The candidate step \<open>factor * 10 ** k\<close> with \<open>k = floor(log10(span / 4))\<close>, as the code
  evaluates it for a positive \<open>span / 4\<close>.
\<close>

definition step_candidate :: "real \<Rightarrow> int \<Rightarrow> py_num" where
  "step_candidate span' factor =
     py_mul (PyInt factor) (py_pow10 \<lfloor>fl64 (log 10 (fl64 (span' / 4)))\<rfloor>)"

fun resample_loop :: "real list \<Rightarrow> int \<Rightarrow> int list \<Rightarrow> py_error + real list" where
  "resample_loop values target_len [] = Inr []"
| "resample_loop values target_len (i # is) =
     (let n = int (length values)
      in case py_truediv (real_of_int (i * (n - 1))) (real_of_int (target_len - 1)) of
           Inl e \<Rightarrow> Inl e
         | Inr pos \<Rightarrow>
             (let low = py_int pos; high = min (low + 1) (n - 1); frac = pos - real_of_int low
              in case py_index values low of
                   Inl e \<Rightarrow> Inl e
                 | Inr vlow \<Rightarrow>
                     (case py_index values high of
                        Inl e \<Rightarrow> Inl e
                      | Inr vhigh \<Rightarrow>
                          (case resample_loop values target_len is of
                             Inl e \<Rightarrow> Inl e
                           | Inr result \<Rightarrow> Inr ((vlow * (1 - frac) + vhigh * frac) # result)))))"

definition resample :: "real list \<Rightarrow> int \<Rightarrow> py_error + real list" where
  "resample values target_len =
     (let n = int (length values)
      in if n = 0 then Inr []
         else if n = target_len then Inr values
         else if target_len = 1 then
           (case py_index values (- 1) of Inl e \<Rightarrow> Inl e | Inr v \<Rightarrow> Inr [v])
         else resample_loop values target_len [0..target_len - 1])"


section \<open>Chart rendering\<close>

text \<open>
  The frame buffer is the external display surface. It is modelled by the sequence of the
  primitive calls made on it, in call order; a formatted string is kept as the format and
  its argument.
\<close>

datatype label =
    Str string
  | Fixed string nat real string
    \<comment> \<open>\<open>Fixed p d v s\<close> is the text \<open>p\<close>, then \<open>v\<close> with \<open>d\<close> decimals, then \<open>s\<close>.\<close>

datatype draw_op =
    Rect int int int int int
  | Text label int int int
  | Line int int int int int
  | HLine int int int int
  | VLine int int int int

definition EPD_WIDTH :: int where
  "EPD_WIDTH = 296"

definition EPD_HEIGHT :: int where
  "EPD_HEIGHT = 128"

definition FG_COLOR :: int where
  "FG_COLOR = 0"

definition BG_COLOR :: int where
  "BG_COLOR = 1"

definition format_k :: "real \<Rightarrow> label" where
  "format_k v = (if \<bar>v\<bar> \<ge> 1000 then Fixed [] 1 (fl64 (v / 1000)) ''k'' else Fixed [] 0 v [])"

partial_function (option) hline_dashed_loop ::
  "draw_op list \<Rightarrow> int \<Rightarrow> int \<Rightarrow> int \<Rightarrow> int \<Rightarrow> int \<Rightarrow> int \<Rightarrow> draw_op list option" where
  "hline_dashed_loop fb y color dash gap end_pos pos =
     (if pos < end_pos then
        hline_dashed_loop (fb @ [HLine pos y (min dash (end_pos - pos)) color])
          y color dash gap end_pos (pos + (dash + gap))
      else Some fb)"

declare hline_dashed_loop.simps [code]

definition hline_dashed ::
  "draw_op list \<Rightarrow> int \<Rightarrow> int \<Rightarrow> int \<Rightarrow> int \<Rightarrow> int \<Rightarrow> int \<Rightarrow> draw_op list option" where
  "hline_dashed fb x y len color dash gap = hline_dashed_loop fb y color dash gap (x + len) x"

partial_function (option) vline_dashed_loop ::
  "draw_op list \<Rightarrow> int \<Rightarrow> int \<Rightarrow> int \<Rightarrow> int \<Rightarrow> int \<Rightarrow> int \<Rightarrow> draw_op list option" where
  "vline_dashed_loop fb x color dash gap end_pos pos =
     (if pos < end_pos then
        vline_dashed_loop (fb @ [VLine x pos (min dash (end_pos - pos)) color])
          x color dash gap end_pos (pos + (dash + gap))
      else Some fb)"

declare vline_dashed_loop.simps [code]

definition vline_dashed ::
  "draw_op list \<Rightarrow> int \<Rightarrow> int \<Rightarrow> int \<Rightarrow> int \<Rightarrow> int \<Rightarrow> int \<Rightarrow> draw_op list option" where
  "vline_dashed fb x y len color dash gap = vline_dashed_loop fb x color dash gap (y + len) y"

partial_function (option) draw_y_grid_loop ::
  "draw_op list \<Rightarrow> int \<Rightarrow> int \<Rightarrow> int \<Rightarrow> int \<Rightarrow> real \<Rightarrow> real \<Rightarrow> py_num \<Rightarrow> py_num
     \<Rightarrow> (py_error + draw_op list) option" where
  "draw_y_grid_loop fb left top' width height min_val max_val step y =
     (if to_real y \<le> max_val then
        (case scale (to_float y) min_val
                (max (fl64 (max_val - min_val)) (fl64 (1 / 1000000))) height of
           Inl e \<Rightarrow> Some (Inl e)
         | Inr offset \<Rightarrow>
             (case hline_dashed fb left (top' + height - offset) width FG_COLOR 3 2 of
                None \<Rightarrow> None
              | Some fb' \<Rightarrow>
                  draw_y_grid_loop
                    (fb' @ [Text (format_k (to_real y)) 4 (top' + height - offset - 4) FG_COLOR])
                    left top' width height min_val max_val step (py_add y step)))
      else Some (Inr fb))"

declare draw_y_grid_loop.simps [code]

definition draw_y_grid ::
  "draw_op list \<Rightarrow> int \<Rightarrow> int \<Rightarrow> int \<Rightarrow> int \<Rightarrow> real \<Rightarrow> real \<Rightarrow> py_num
     \<Rightarrow> (py_error + draw_op list) option" where
  "draw_y_grid fb left top' width height min_val max_val step =
     (case py_fdiv min_val (to_float step) of
        Inl e \<Rightarrow> Some (Inl e)
      | Inr q \<Rightarrow>
          (let start = py_mul (PyInt \<lceil>q\<rceil>) step
           in draw_y_grid_loop fb left top' width height min_val max_val step start))"

function range_up :: "int \<Rightarrow> int \<Rightarrow> int \<Rightarrow> int list" where
  "range_up i stop step = (if 0 < step \<and> i < stop then i # range_up (i + step) stop step else [])"
  by pat_completeness auto
termination
  by (relation "measure (\<lambda>(i, stop, step). nat (stop - i))") auto

declare range_up.simps [simp del]

function range_down :: "int \<Rightarrow> int \<Rightarrow> int \<Rightarrow> int list" where
  "range_down i stop step =
     (if step < 0 \<and> stop < i then i # range_down (i + step) stop step else [])"
  by pat_completeness auto
termination
  by (relation "measure (\<lambda>(i, stop, step). nat (i - stop))") auto

declare range_down.simps [simp del]

definition py_range :: "int \<Rightarrow> int \<Rightarrow> int \<Rightarrow> py_error + int list" where
  \<comment> \<open>\<open>range(start, stop, step)\<close>; a zero step raises ValueError.\<close>
  "py_range start stop step =
     (if step = 0 then Inl ValueError
      else if 0 < step then Inr (range_up start stop step)
      else Inr (range_down start stop step))"

fun draw_x_grid_loop ::
  "draw_op list \<Rightarrow> int \<Rightarrow> int \<Rightarrow> int \<Rightarrow> real \<Rightarrow> int list \<Rightarrow> draw_op list option" where
  "draw_x_grid_loop fb left top' height step_x [] = Some fb"
| "draw_x_grid_loop fb left top' height step_x (idx # idxs) =
     (let x = py_int (real_of_int left + real_of_int idx * step_x)
      in case vline_dashed fb x top' height FG_COLOR 3 2 of
           None \<Rightarrow> None
         | Some fb' \<Rightarrow> draw_x_grid_loop fb' left top' height step_x idxs)"

definition draw_x_grid ::
  "draw_op list \<Rightarrow> int \<Rightarrow> int \<Rightarrow> int \<Rightarrow> real \<Rightarrow> int \<Rightarrow> string
     \<Rightarrow> (py_error + draw_op list) option" where
  "draw_x_grid fb left top' height step_x points span_label =
     (if points < 2 then Some (Inr fb)
      else
        (let desired_lines = (if span_label = ''365d'' then 12 else 6);
             step_points = max 1 (points div desired_lines)
         in case py_range step_points points step_points of
              Inl e \<Rightarrow> Some (Inl e)
            | Inr idxs \<Rightarrow> map_option Inr (draw_x_grid_loop fb left top' height step_x idxs)))"

fun polyline_loop ::
  "draw_op list \<Rightarrow> int \<Rightarrow> int \<Rightarrow> int \<Rightarrow> real \<Rightarrow> real \<Rightarrow> real \<Rightarrow> int \<Rightarrow> int
     \<Rightarrow> (int \<times> real) list \<Rightarrow> py_error + draw_op list" where
  "polyline_loop fb chart_left chart_top chart_height step_x min_val span' prev_x prev_y [] =
     Inr fb"
| "polyline_loop fb chart_left chart_top chart_height step_x min_val span' prev_x prev_y
     ((idx, v) # rest) =
     (let x = py_int (real_of_int chart_left + real_of_int idx * step_x)
      in case scale v min_val span' chart_height of
           Inl e \<Rightarrow> Inl e
         | Inr s \<Rightarrow>
             (let y = chart_top + chart_height - s
              in polyline_loop (fb @ [Line prev_x prev_y x y FG_COLOR])
                   chart_left chart_top chart_height step_x min_val span' x y rest))"

definition draw_chart ::
  "draw_op list \<Rightarrow> real ringbuffer \<Rightarrow> string \<Rightarrow> (py_error + draw_op list) option" where
  "draw_chart fb history span_label =
     (let chart_left = 55;
          chart_top = 34;
          chart_width = EPD_WIDTH - chart_left - 6;
          chart_height = 64;
          points = int (length (data history));
          fb1 = fb @ [Rect (chart_left - 1) (chart_top - 1) (chart_width + 2) (chart_height + 2)
                        FG_COLOR]
      in if data history = [] then
           Some (Inr (fb1 @ [Text (Str ''keine Daten'') (chart_left + 4)
                               (chart_top + chart_height div 2) FG_COLOR]))
         else
           (case minmax history of
              Inl e \<Rightarrow> Some (Inl e)
            | Inr (min_val, max_val) \<Rightarrow>
                (let span' = max (fl64 (max_val - min_val)) (fl64 (1 / 1000000));
                     step_x = real_of_int chart_width / real_of_int (max 1 (points - 1))
                 in case nice_step span' of
                      Inl e \<Rightarrow> Some (Inl e)
                    | Inr y_step \<Rightarrow>
                        (case draw_y_grid fb1 chart_left chart_top chart_width chart_height
                                min_val max_val y_step of
                           None \<Rightarrow> None
                         | Some (Inl e) \<Rightarrow> Some (Inl e)
                         | Some (Inr fb2) \<Rightarrow>
                             (case draw_x_grid fb2 chart_left chart_top chart_height step_x
                                     points span_label of
                                None \<Rightarrow> None
                              | Some (Inl e) \<Rightarrow> Some (Inl e)
                              | Some (Inr fb3) \<Rightarrow>
                                  (case py_index (data history) 0 of
                                     Inl e \<Rightarrow> Some (Inl e)
                                   | Inr v0 \<Rightarrow>
                                       (case scale v0 min_val span' chart_height of
                                          Inl e \<Rightarrow> Some (Inl e)
                                        | Inr s0 \<Rightarrow>
                                            (case polyline_loop fb3 chart_left chart_top
                                                    chart_height step_x min_val span' chart_left
                                                    (chart_top + chart_height - s0)
                                                    (zip [1..points - 1] (tl (data history))) of
                                               Inl e \<Rightarrow> Some (Inl e)
                                             | Inr fb4 \<Rightarrow>
                                                 Some (Inr (fb4 @
                                                   [Text (Fixed ''Min '' 0 min_val '' EUR'')
                                                      chart_left (chart_top + chart_height + 4)
                                                      FG_COLOR,
                                                    Text (Fixed ''Max '' 0 max_val '' EUR'')
                                                      (chart_left + 110)
                                                      (chart_top + chart_height + 4) FG_COLOR,
                                                    Text (Str span_label)
                                                      (chart_left + chart_width - 36)
                                                      (chart_top - 9) FG_COLOR]))))))))))"


section \<open>Vertical gridlines: what is drawn and what the specification describes\<close>






section \<open>Daylight saving time\<close>

text \<open>
  C6. \<open>_berlin_offset_seconds\<close> returns the standard offset 3600 s for UTC 2024-03-31 01:59,
  the daylight offset 7200 s for UTC 2024-03-31 02:00, the daylight offset 7200 s for UTC
  2024-10-27 02:59 and the standard offset 3600 s for UTC 2024-10-27 03:00. The tuples are
  those of \<open>time.localtime()\<close>: year, month, day, hour, minute, second, weekday, day of year.
\<close>

theorem berlin_offset_2024_boundaries:
  "berlin_offset_seconds (2024, 3, 31, 1, 59, 0, 6, 91) = Inr 3600 \<and>
   berlin_offset_seconds (2024, 3, 31, 2, 0, 0, 6, 91) = Inr 7200 \<and>
   berlin_offset_seconds (2024, 10, 27, 2, 59, 0, 6, 301) = Inr 7200 \<and>
   berlin_offset_seconds (2024, 10, 27, 3, 0, 0, 6, 301) = Inr 3600"
  by code_simp

text \<open>
  C1. \<open>_last_sunday\<close> is meant to return the day of the last Sunday of the month. It tries
  the days 31, 30, 29 and 28 only and falls back to 27. In March 2023 the last Sunday is the
  26th (weekday 0); the function returns 27, a Monday (weekday 1), and at noon UTC of
  2023-03-26, when daylight saving time is in force, \<open>_berlin_offset_seconds\<close> still returns
  the standard offset 3600 s. March 2028 has the same weekdays.
\<close>

theorem last_sunday_march_2023:
  "last_sunday 2023 3 = Inr 27 \<and> weekday 2023 3 27 = Inr 1 \<and> weekday 2023 3 26 = Inr 0 \<and>
   berlin_offset_seconds (2023, 3, 26, 12, 0, 0, 6, 85) = Inr 3600 \<and>
   last_sunday 2028 3 = Inr 27 \<and> weekday 2028 3 27 = Inr 1 \<and> weekday 2028 3 26 = Inr 0"
  by code_simp

section \<open>Rendering an empty history\<close>

text \<open>
  C9. \<open>draw_chart\<close> on a history whose data is empty raises nothing and returns after
  exactly two calls on the frame buffer: the border rectangle one pixel around the chart area
  and the placeholder text \<open>keine Daten\<close> at the vertical middle of the chart. No minimum or
  maximum, gridline or polyline is computed.
\<close>

theorem draw_chart_empty:
  "draw_chart fb \<lparr>length_rb = n, data = []\<rparr> span_label =
     Some (Inr (fb @ [Rect 54 33 237 66 FG_COLOR, Text (Str ''keine Daten'') 59 66 FG_COLOR]))"
  by (simp add: draw_chart_def EPD_WIDTH_def)

section \<open>FIFO eviction of the history buffer\<close>

lemma append_rb_last:
  assumes "0 < length_rb self" "data self = drop (length hist - nat (length_rb self)) hist"
  shows "\<exists>self'. append_rb self v = Inr self' \<and> length_rb self' = length_rb self \<and>
           data self' = drop (length (hist @ [v]) - nat (length_rb self)) (hist @ [v])"
proof (cases "int (length (data self)) \<ge> length_rb self")
  case True
  from assms(2) have len: "length (data self) = min (length hist) (nat (length_rb self))"
    by simp
  with True assms(1) have ge: "nat (length_rb self) \<le> length hist" by linarith
  then have ne: "data self \<noteq> []" using assms by auto
  then obtain x xs where xxs: "data self = x # xs" by (cases "data self") auto
  have "xs = drop (Suc (length hist - nat (length_rb self))) hist"
    using xxs assms(2) by (metis drop_Suc list.sel(3) tl_drop)
  moreover have "Suc (length hist - nat (length_rb self)) = Suc (length hist) - nat (length_rb self)"
    using ge by simp
  ultimately show ?thesis
    using True xxs ge assms(1) by (simp add: append_rb_def)
next
  case False
  from assms(2) have len: "length (data self) = min (length hist) (nat (length_rb self))"
    by simp
  with False have lt: "length hist < nat (length_rb self)" by linarith
  then show ?thesis using False assms(2) by (simp add: append_rb_def)
qed

lemma extend_last:
  assumes "0 < length_rb self" "data self = drop (length hist - nat (length_rb self)) hist"
  shows "\<exists>self'. extend self vs = Inr self' \<and> length_rb self' = length_rb self \<and>
           data self' = drop (length (hist @ vs) - nat (length_rb self)) (hist @ vs)"
  using assms
proof (induction vs arbitrary: self hist)
  case Nil
  then show ?case by simp
next
  case (Cons v vs)
  from append_rb_last[OF Cons.prems, of v] obtain s1 where
    s1: "append_rb self v = Inr s1" "length_rb s1 = length_rb self"
        "data s1 = drop (length (hist @ [v]) - nat (length_rb self)) (hist @ [v])"
    by blast
  from Cons.IH[of s1 "hist @ [v]"] s1 Cons.prems(1) show ?case by simp
qed

lemma rb_calls_last:
  assumes "0 < length_rb self" "data self = drop (length hist - nat (length_rb self)) hist"
  shows "\<exists>self'. rb_calls self cs = Inr self' \<and> length_rb self' = length_rb self \<and>
           data self' = drop (length (hist @ appended cs) - nat (length_rb self)) (hist @ appended cs)"
  using assms
proof (induction cs arbitrary: self hist)
  case Nil
  then show ?case by simp
next
  case (Cons c cs)
  show ?case
  proof (cases c)
    case (Append v)
    from append_rb_last[OF Cons.prems, of v] obtain s1 where
      s1: "append_rb self v = Inr s1" "length_rb s1 = length_rb self"
          "data s1 = drop (length (hist @ [v]) - nat (length_rb self)) (hist @ [v])"
      by blast
    from Cons.IH[of s1 "hist @ [v]"] s1 Cons.prems(1) Append show ?thesis by simp
  next
    case (Extend vs)
    from extend_last[OF Cons.prems, of vs] obtain s1 where
      s1: "extend self vs = Inr s1" "length_rb s1 = length_rb self"
          "data s1 = drop (length (hist @ vs) - nat (length_rb self)) (hist @ vs)"
      by blast
    from Cons.IH[of s1 "hist @ vs"] s1 Cons.prems(1) Extend show ?thesis by simp
  qed
qed

text \<open>
  C2. A \<open>RingBuffer\<close> created with a positive capacity \<open>N\<close> accepts every sequence of
  \<open>append\<close> and \<open>extend\<close> calls without an error; afterwards its data has at most \<open>N\<close>
  elements and is the sequence of all appended values with everything but the last \<open>N\<close>
  dropped, in the order of appending. Once more than \<open>N\<close> values were appended it holds
  exactly \<open>N\<close> values.
\<close>

theorem ringbuffer_fifo:
  assumes "0 < N"
  shows "\<exists>self. rb_calls (RingBuffer N) cs = Inr self \<and>
           int (length (data self)) \<le> N \<and>
           data self = drop (length (appended cs) - nat N) (appended cs) \<and>
           (N < int (length (appended cs)) \<longrightarrow> int (length (data self)) = N)"
proof -
  have "data (RingBuffer N :: 'a ringbuffer) = drop (length ([]::'a list) - nat (length_rb (RingBuffer N :: 'a ringbuffer))) []"
    by (simp add: RingBuffer_def)
  from rb_calls_last[OF _ this, of cs] assms obtain self where
    s: "rb_calls (RingBuffer N) cs = Inr self"
       "data self = drop (length (appended cs) - nat N) (appended cs)"
    by (auto simp: RingBuffer_def)
  from s(2) have "length (data self) = min (length (appended cs)) (nat N)" by simp
  with s assms show ?thesis by auto
qed

theorem ringbuffer_fifo_witness:
  "(0::int) < 3 \<and>
   (\<exists>self. rb_calls (RingBuffer 3) [Append 1, Extend [2, 3, 4], Append (5::int)] = Inr self \<and>
      data self = [3, 4, 5] \<and> int (length (data self)) = 3)"
proof -
  have h: "(0::int) < 3" by simp
  show ?thesis
    using h ringbuffer_fifo [OF h, of "[Append 1, Extend [2, 3, 4], Append (5::int)]"]
    by auto
qed

section \<open>Resampling\<close>

lemma py_index_in_range:
  "0 \<le> i \<Longrightarrow> i < int (length xs) \<Longrightarrow> py_index xs i = Inr (xs ! nat i)"
  by (simp add: py_index_def)

lemma resample_pos_bounds:
  assumes "1 \<le> n" "2 \<le> t" "0 \<le> i" "i \<le> t - 1"
  shows "0 \<le> real_of_int (i * (n - 1)) / real_of_int (t - 1)"
    and "real_of_int (i * (n - 1)) / real_of_int (t - 1) \<le> real_of_int (n - 1)"
proof -
  have t0: "0 < real_of_int (t - 1)" using assms by simp
  have "0 \<le> i * (n - 1)" using assms by simp
  then have "0 \<le> real_of_int (i * (n - 1))" by (simp only: of_int_0_le_iff)
  then show "0 \<le> real_of_int (i * (n - 1)) / real_of_int (t - 1)"
    using t0 by simp
  have "i * (n - 1) \<le> (t - 1) * (n - 1)"
    using assms by (intro mult_right_mono) simp_all
  then have "real_of_int (i * (n - 1)) \<le> real_of_int ((t - 1) * (n - 1))"
    by (simp only: of_int_le_iff)
  then have "real_of_int (i * (n - 1)) \<le> real_of_int (n - 1) * real_of_int (t - 1)"
    by (simp add: mult.commute)
  then show "real_of_int (i * (n - 1)) / real_of_int (t - 1) \<le> real_of_int (n - 1)"
    using t0 by (simp add: divide_le_eq)
qed

lemma resample_loop_ok:
  assumes "values \<noteq> []" "2 \<le> t" "\<forall>i \<in> set is. 0 \<le> i \<and> i \<le> t - 1"
  shows "\<exists>r. resample_loop values t is = Inr r \<and> length r = length is \<and>
           (is \<noteq> [] \<and> hd is = 0 \<longrightarrow> hd r = hd values) \<and>
           (is \<noteq> [] \<and> last is = t - 1 \<longrightarrow> last r = last values)"
  using assms(3)
proof (induction "is")
  case Nil
  then show ?case by simp
next
  case (Cons i "is")
  define n where "n = int (length values)"
  define pos where "pos = real_of_int (i * (n - 1)) / real_of_int (t - 1)"
  define low where "low = py_int pos"
  define high where "high = min (low + 1) (n - 1)"
  define frac where "frac = pos - real_of_int low"
  define val where "val = values ! nat low * (1 - frac) + values ! nat high * frac"
  have n1: "1 \<le> n" using assms(1) by (cases "values") (simp_all add: n_def)
  have i0: "0 \<le> i" and i1: "i \<le> t - 1" using Cons.prems by simp_all
  have pos0: "0 \<le> pos" and pos1: "pos \<le> real_of_int (n - 1)"
    unfolding pos_def using resample_pos_bounds[OF n1 assms(2) i0 i1] by blast+
  have low_eq: "low = \<lfloor>pos\<rfloor>" using pos0 by (simp add: low_def py_int_def)
  have low0: "0 \<le> low" using pos0 low_eq by simp
  have low1: "low \<le> n - 1" using floor_mono[OF pos1] low_eq by (simp only: floor_of_int)
  have high0: "0 \<le> high" using low0 n1 by (simp add: high_def)
  have high1: "high \<le> n - 1" by (simp add: high_def)
  have div: "py_truediv (real_of_int (i * (n - 1))) (real_of_int (t - 1)) = Inr pos"
    using assms(2) by (simp add: py_truediv_def pos_def)
  have il: "py_index values low = Inr (values ! nat low)"
    using low0 low1 by (intro py_index_in_range) (simp_all add: n_def)
  have ih: "py_index values high = Inr (values ! nat high)"
    using high0 high1 by (intro py_index_in_range) (simp_all add: n_def)
  from Cons.IH Cons.prems obtain r where
    r: "resample_loop values t is = Inr r" "length r = length is"
       "is \<noteq> [] \<and> last is = t - 1 \<longrightarrow> last r = last values"
    by auto
  have step: "resample_loop values t (i # is) = Inr (val # r)"
    using div il ih r(1)
    by (simp add: Let_def n_def [symmetric] low_def [symmetric] high_def [symmetric]
          frac_def [symmetric] val_def [symmetric])
  have first: "val = hd values" if "i = 0"
  proof -
    from that have "pos = 0" by (simp add: pos_def)
    then have "low = 0" "frac = 0" by (simp_all add: low_eq frac_def)
    then show ?thesis using assms(1) by (simp add: val_def hd_conv_nth)
  qed
  have final: "val = last values" if "i = t - 1"
  proof -
    from that assms(2) have "pos = real_of_int (n - 1)" by (simp add: pos_def)
    then have l: "low = n - 1" and f: "frac = 0" by (simp_all add: low_eq frac_def)
    then have "high = n - 1" by (simp add: high_def)
    moreover have "nat (n - 1) = length values - 1" by (simp add: n_def)
    ultimately show ?thesis using assms(1) l f by (simp add: val_def last_conv_nth)
  qed
  have "last (val # r) = last values" if "last (i # is) = t - 1"
  proof (cases "is = []")
    case True
    with that r(2) final show ?thesis by simp
  next
    case False
    with r(2) have "r \<noteq> []" by auto
    with that False r(3) show ?thesis by simp
  qed
  with step r(2) first show ?case by simp
qed

lemma upto_hd_last:
  assumes "0 \<le> (m::int)"
  shows "[0..m] \<noteq> []" "hd [0..m] = 0" "last [0..m] = m" "length [0..m] = nat (m + 1)"
proof -
  show "[0..m] \<noteq> []" using assms by (simp add: upto.simps)
  show "hd [0..m] = 0" using assms by (simp add: upto.simps)
  show "last [0..m] = m" using assms by (simp add: upto_rec2)
  show "length [0..m] = nat (m + 1)" by simp
qed

text \<open>
  C5. For a non-empty list and a target length of at least 2, \<open>_resample\<close> raises nothing and
  returns a list of exactly \<open>target_len\<close> elements whose first element is the first input
  value and whose last element is the last input value. For target length 1 and a non-empty
  input the result is the one-element list of the most recent input value. An empty input
  gives the empty list.
\<close>

theorem resample_length_endpoints:
  "(values \<noteq> [] \<and> 2 \<le> target_len \<longrightarrow>
      (\<exists>r. resample values target_len = Inr r \<and> int (length r) = target_len \<and>
           hd r = hd values \<and> last r = last values)) \<and>
   (values \<noteq> [] \<longrightarrow> resample values 1 = Inr [last values]) \<and>
   resample [] target_len = Inr []"
proof (intro conjI impI)
  assume a: "values \<noteq> [] \<and> 2 \<le> target_len"
  show "\<exists>r. resample values target_len = Inr r \<and> int (length r) = target_len \<and>
           hd r = hd values \<and> last r = last values"
  proof (cases "int (length values) = target_len")
    case True
    with a show ?thesis by (simp add: resample_def)
  next
    case False
    have m: "0 \<le> target_len - 1" using a by simp
    have "\<forall>i \<in> set [0..target_len - 1]. 0 \<le> i \<and> i \<le> target_len - 1" by simp
    from resample_loop_ok[OF _ _ this] a obtain r where
      r: "resample_loop values target_len [0..target_len - 1] = Inr r"
         "length r = length [0..target_len - 1]"
         "[0..target_len - 1] \<noteq> [] \<and> hd [0..target_len - 1] = 0 \<longrightarrow> hd r = hd values"
         "[0..target_len - 1] \<noteq> [] \<and> last [0..target_len - 1] = target_len - 1
            \<longrightarrow> last r = last values"
      by blast
    have "resample values target_len = Inr r"
      using False a r(1) by (simp add: resample_def)
    moreover have "int (length r) = target_len"
      using r(2) a by (simp only: upto_hd_last(4)[OF m]) simp
    moreover have "hd r = hd values" using r(3) upto_hd_last(1,2)[OF m] by simp
    moreover have "last r = last values" using r(4) upto_hd_last(1,3)[OF m] by simp
    ultimately show ?thesis by blast
  qed
next
  assume a: "values \<noteq> []"
  then have "py_index values (- 1) = Inr (last values)"
    by (cases "values" rule: rev_cases) (simp_all add: py_index_def nth_append)
  moreover have "int (length values) = 1 \<Longrightarrow> values = [last values]"
    by (cases "values") auto
  ultimately show "resample values 1 = Inr [last values]"
    using a by (auto simp add: resample_def)
next
  show "resample [] target_len = Inr []" by (simp add: resample_def)
qed

theorem resample_length_endpoints_witness:
  "([100, 100, 200, 300, 300] \<noteq> ([]::real list) \<and> (2::int) \<le> 3) \<and>
   (\<exists>r. resample [100, 100, 200, 300, 300] 3 = Inr r \<and> int (length r) = 3 \<and>
        hd r = 100 \<and> last r = 300) \<and>
   resample [100, 100, 200, 300, 300] 1 = Inr [300]"
  using resample_length_endpoints [of "[100, 100, 200, 300, 300]" 3]
  by simp

section \<open>Vertical gridlines\<close>









section \<open>Properties of the rounding\<close>

lemma rne_of_int: "rne (real_of_int k) = k"
  by (simp add: rne_def)

lemma rne_cases: "rne y = \<lfloor>y\<rfloor> \<or> rne y = \<lfloor>y\<rfloor> + 1"
  by (simp add: rne_def Let_def)

lemma rne_upper: "real_of_int (rne y) \<le> y + 1 / 2"
  unfolding rne_def Let_def by (auto; linarith)

lemma rne_lower: "y - 1 / 2 \<le> real_of_int (rne y)"
  unfolding rne_def Let_def by (auto; linarith)

lemma rne_mono:
  assumes "y \<le> z"
  shows "rne y \<le> rne z"
proof -
  have fg: "\<lfloor>y\<rfloor> \<le> \<lfloor>z\<rfloor>" using assms by (rule floor_mono)
  show ?thesis
  proof (cases "\<lfloor>y\<rfloor> = \<lfloor>z\<rfloor>")
    case True
    then have "y - real_of_int \<lfloor>y\<rfloor> \<le> z - real_of_int \<lfloor>z\<rfloor>" using assms by simp
    with True show ?thesis unfolding rne_def Let_def by auto
  next
    case False
    with fg have "\<lfloor>y\<rfloor> + 1 \<le> \<lfloor>z\<rfloor>" by simp
    moreover have "rne y \<le> \<lfloor>y\<rfloor> + 1" using rne_cases[of y] by auto
    moreover have "\<lfloor>z\<rfloor> \<le> rne z" using rne_cases[of z] by auto
    ultimately show ?thesis by linarith
  qed
qed

lemma rne_minus: "rne (- y) = - rne y"
proof (cases "y = real_of_int \<lfloor>y\<rfloor>")
  case True
  then obtain k where "y = real_of_int k" ..
  then have "- y = real_of_int (- k)" by simp
  then show ?thesis using \<open>y = real_of_int k\<close> by (simp only: rne_of_int)
next
  case False
  then have lt: "real_of_int \<lfloor>y\<rfloor> < y" by (metis of_int_floor_le order_le_less)
  have up: "y < real_of_int \<lfloor>y\<rfloor> + 1" by linarith
  have "\<lfloor>- y\<rfloor> = - \<lfloor>y\<rfloor> - 1"
  proof (rule floor_unique)
    have c: "real_of_int (- \<lfloor>y\<rfloor> - 1) = - real_of_int \<lfloor>y\<rfloor> - 1" by simp
    show "real_of_int (- \<lfloor>y\<rfloor> - 1) \<le> - y" unfolding c using up by linarith
    show "- y < real_of_int (- \<lfloor>y\<rfloor> - 1) + 1" unfolding c using lt by linarith
  qed
  then show ?thesis unfolding rne_def Let_def by auto
qed


lemma two_powr_powi: "(2::real) powr real_of_int k = 2 powi k"
  by (simp add: powr_real_of_int')

lemma expo_minus: "expo (- x) = expo x"
  by (simp add: expo_def)

lemma expo_ge: "- 1022 \<le> expo x"
  by (simp add: expo_def)

lemma expo_upper:
  assumes "0 < x"
  shows "x < 2 powi (expo x + 1)"
proof -
  have "log 2 x < real_of_int \<lfloor>log 2 x\<rfloor> + 1" by linarith
  also have "\<dots> \<le> real_of_int (expo x + 1)"
    using assms by (simp add: expo_def)
  finally have "log 2 x < real_of_int (expo x + 1)" .
  then have "x < 2 powr real_of_int (expo x + 1)"
    using assms by (simp add: log_less_iff)
  then show ?thesis by (simp only: two_powr_powi)
qed

lemma expo_eq:
  assumes "2 powi e \<le> \<bar>x\<bar>" "\<bar>x\<bar> < 2 powi (e + 1)" "- 1022 \<le> e"
  shows "expo x = e"
proof -
  have pos: "0 < \<bar>x\<bar>" using assms(1) by (smt (verit) zero_less_power_int)
  have a: "2 powr real_of_int e \<le> \<bar>x\<bar>" using assms(1) by (simp only: two_powr_powi)
  have "\<bar>x\<bar> < 2 powr real_of_int (e + 1)" using assms(2) by (simp only: two_powr_powi)
  then have b: "\<bar>x\<bar> < 2 powr (real_of_int e + 1)" by (simp add: add.commute)
  have "\<lfloor>log 2 \<bar>x\<bar>\<rfloor> = e"
    using floor_log_eq_powr_iff[of "\<bar>x\<bar>" 2 e] pos a b by simp
  then show ?thesis using assms(3) by (simp add: expo_def)
qed

lemma expo_subnormal:
  assumes "x \<noteq> 0" "\<bar>x\<bar> < 2 powi (- 1022)"
  shows "expo x = - 1022"
proof -
  have pos: "0 < \<bar>x\<bar>" using assms(1) by simp
  have "\<bar>x\<bar> < 2 powr real_of_int (- 1022)" using assms(2) by (simp only: two_powr_powi)
  then have "log 2 \<bar>x\<bar> < real_of_int (- 1022)" using pos by (simp add: log_less_iff)
  then have "\<lfloor>log 2 \<bar>x\<bar>\<rfloor> < - 1022" by (simp add: floor_less_iff)
  then show ?thesis by (simp add: expo_def)
qed

lemma expo_lower:
  assumes "2 powi (- 1022) \<le> x"
  shows "2 powi (expo x) \<le> x"
proof -
  have pos: "0 < x" using assms by (smt (verit) zero_less_power_int)
  have "2 powr real_of_int (- 1022) \<le> x" using assms by (simp only: two_powr_powi)
  then have "real_of_int (- 1022) \<le> log 2 x" using pos by (simp add: le_log_iff)
  then have "- 1022 \<le> \<lfloor>log 2 x\<rfloor>" by (simp add: le_floor_iff)
  then have e: "expo x = \<lfloor>log 2 x\<rfloor>" using pos by (simp add: expo_def)
  have "real_of_int (expo x) \<le> log 2 x" unfolding e by simp
  then have "2 powr real_of_int (expo x) \<le> x" using pos by (simp add: le_log_iff)
  then show ?thesis by (simp only: two_powr_powi)
qed

lemma expo_mono:
  assumes "0 < x" "x \<le> y"
  shows "expo x \<le> expo y"
proof -
  have "log 2 x \<le> log 2 y" using assms by simp
  then have "\<lfloor>log 2 x\<rfloor> \<le> \<lfloor>log 2 y\<rfloor>" by (rule floor_mono)
  then show ?thesis using assms by (simp add: expo_def)
qed

lemma fl64_zero: "fl64 0 = 0"
  by (simp add: fl64_def)

lemma fl64_minus: "fl64 (- x) = - fl64 x"
  by (simp add: fl64_def expo_minus rne_minus)

lemma fl64_nonneg:
  assumes "0 \<le> x"
  shows "0 \<le> fl64 x"
proof -
  have "0 \<le> x / 2 powi (expo x - 52)" using assms by simp
  then have "rne 0 \<le> rne (x / 2 powi (expo x - 52))" by (rule rne_mono)
  then have "0 \<le> rne (x / 2 powi (expo x - 52))" using rne_of_int[of 0] by simp
  then show ?thesis by (simp add: fl64_def)
qed

lemma fl64_eval:
  assumes "2 powi e \<le> \<bar>x\<bar>" "\<bar>x\<bar> < 2 powi (e + 1)" "- 1022 \<le> e"
  shows "fl64 x = 2 powi (e - 52) * real_of_int (rne (x / 2 powi (e - 52)))"
proof -
  have "x \<noteq> 0" using assms(1) by (smt (verit) zero_less_power_int)
  then show ?thesis by (simp add: fl64_def expo_eq[OF assms])
qed

lemma fl64_eval_subnormal:
  assumes "\<bar>x\<bar> < 2 powi (- 1022)"
  shows "fl64 x = 2 powi (- 1074) * real_of_int (rne (x / 2 powi (- 1074)))"
proof (cases "x = 0")
  case True
  then show ?thesis using rne_of_int[of 0] by (simp add: fl64_def)
next
  case False
  then show ?thesis by (simp add: fl64_def expo_subnormal[OF False assms])
qed


lemma expo_lower':
  assumes "0 < x" "- 1022 < expo x"
  shows "2 powi (expo x) \<le> x"
proof -
  from assms(2) have e: "expo x = \<lfloor>log 2 \<bar>x\<bar>\<rfloor>" by (simp add: expo_def max_def split: if_splits)
  have "real_of_int (expo x) \<le> log 2 x" unfolding e using assms(1) by simp
  then have "2 powr real_of_int (expo x) \<le> x" using assms(1) by (simp add: le_log_iff)
  then show ?thesis by (simp only: two_powr_powi)
qed

lemma pow2_split: "(2::real) powi (e + 1) = 2 powi (e - 52) * 2 powi 53"
proof -
  have "(2::real) powi ((e - 52) + 53) = 2 powi (e - 52) * 2 powi 53"
    by (rule power_int_add) simp
  then show ?thesis by (simp add: algebra_simps)
qed

lemma pow2_split': "(2::real) powi e = 2 powi (e - 52) * 2 powi 52"
proof -
  have "(2::real) powi ((e - 52) + 52) = 2 powi (e - 52) * 2 powi 52"
    by (rule power_int_add) simp
  then show ?thesis by (simp add: algebra_simps)
qed

lemma fl64_le_pow:
  assumes "0 < x"
  shows "fl64 x \<le> 2 powi (expo x + 1)"
proof -
  define u where "u = (2::real) powi (expo x - 52)"
  have u0: "0 < u" by (simp add: u_def)
  have "x < u * 2 powi 53" using expo_upper[OF assms] pow2_split[of "expo x"] by (simp add: u_def)
  then have "x / u \<le> 2 powi 53" using u0 by (simp add: divide_le_eq mult.commute)
  then have "x / u \<le> real_of_int (2 ^ 53)" by simp
  then have "rne (x / u) \<le> rne (real_of_int (2 ^ 53))" by (rule rne_mono)
  then have "rne (x / u) \<le> 2 ^ 53" by (simp only: rne_of_int)
  then have "real_of_int (rne (x / u)) \<le> 2 powi 53" by (simp add: of_int_le_iff[symmetric] del: of_int_le_iff)
  then have "u * real_of_int (rne (x / u)) \<le> u * 2 powi 53" using u0 by simp
  then show ?thesis using assms pow2_split[of "expo x"] by (simp add: fl64_def u_def)
qed

lemma fl64_ge_pow:
  assumes "0 < x" "2 powi (expo x) \<le> x"
  shows "2 powi (expo x) \<le> fl64 x"
proof -
  define u where "u = (2::real) powi (expo x - 52)"
  have u0: "0 < u" by (simp add: u_def)
  have "u * 2 powi 52 \<le> x" using assms(2) pow2_split'[of "expo x"] by (simp add: u_def)
  then have "2 powi 52 \<le> x / u" using u0 by (simp add: le_divide_eq mult.commute)
  then have "real_of_int (2 ^ 52) \<le> x / u" by simp
  then have "rne (real_of_int (2 ^ 52)) \<le> rne (x / u)" by (rule rne_mono)
  then have "2 ^ 52 \<le> rne (x / u)" by (simp only: rne_of_int)
  then have "2 powi 52 \<le> real_of_int (rne (x / u))" by (simp add: of_int_le_iff[symmetric] del: of_int_le_iff)
  then have "u * 2 powi 52 \<le> u * real_of_int (rne (x / u))" using u0 by simp
  then show ?thesis using assms pow2_split'[of "expo x"] by (simp add: fl64_def u_def)
qed

lemma fl64_mono_pos:
  assumes "0 < x" "x \<le> y"
  shows "fl64 x \<le> fl64 y"
proof (cases "expo x = expo y")
  case True
  define u where "u = (2::real) powi (expo y - 52)"
  have u0: "0 < u" by (simp add: u_def)
  have "x / u \<le> y / u" using assms(2) u0 by (simp add: divide_right_mono)
  then have "rne (x / u) \<le> rne (y / u)" by (rule rne_mono)
  then have "u * real_of_int (rne (x / u)) \<le> u * real_of_int (rne (y / u))" using u0 by simp
  then show ?thesis using assms True by (simp add: fl64_def u_def)
next
  case False
  have y0: "0 < y" using assms by simp
  have lt: "expo x < expo y" using expo_mono[OF assms] False by simp
  then have "- 1022 < expo y" using expo_ge[of x] by simp
  from expo_lower'[OF y0 this] have "2 powi (expo y) \<le> fl64 y" by (rule fl64_ge_pow[OF y0])
  moreover have "fl64 x \<le> 2 powi (expo x + 1)" by (rule fl64_le_pow[OF assms(1)])
  moreover have "(2::real) powi (expo x + 1) \<le> 2 powi (expo y)"
    using lt by (intro power_int_increasing) simp_all
  ultimately show ?thesis by linarith
qed

lemma fl64_mono:
  assumes "x \<le> y"
  shows "fl64 x \<le> fl64 y"
proof -
  consider (pos) "0 < x" | (neg) "y < 0" | (mid) "x \<le> 0" "0 \<le> y" by linarith
  then show ?thesis
  proof cases
    case pos
    then show ?thesis using assms by (rule fl64_mono_pos)
  next
    case neg
    have "fl64 (- y) \<le> fl64 (- x)" using neg assms by (intro fl64_mono_pos) simp_all
    then show ?thesis by (simp add: fl64_minus)
  next
    case mid
    have "0 \<le> fl64 (- x)" using mid(1) by (intro fl64_nonneg) simp
    then have "fl64 x \<le> 0" by (simp add: fl64_minus)
    moreover have "0 \<le> fl64 y" using mid(2) by (rule fl64_nonneg)
    ultimately show ?thesis by simp
  qed
qed


lemma rne_eq:
  assumes "real_of_int k - 1 / 2 < y" "y < real_of_int k + 1 / 2"
  shows "rne y = k"
proof -
  have "real_of_int (rne y) < real_of_int k + 1" using rne_upper[of y] assms(2) by linarith
  moreover have "real_of_int k - 1 < real_of_int (rne y)" using rne_lower[of y] assms(1) by linarith
  ultimately have "rne y < k + 1" "k - 1 < rne y" by linarith+
  then show ?thesis by simp
qed

lemma rne_tie_even:
  assumes "y = real_of_int k + 1 / 2" "even k"
  shows "rne y = k"
proof -
  have "\<lfloor>y\<rfloor> = k" unfolding assms(1) by (rule floor_unique) simp_all
  then show ?thesis using assms by (simp add: rne_def)
qed

lemma rne_tie_odd:
  assumes "y = real_of_int k + 1 / 2" "odd k"
  shows "rne y = k + 1"
proof -
  have "\<lfloor>y\<rfloor> = k" unfolding assms(1) by (rule floor_unique) simp_all
  then show ?thesis using assms by (simp add: rne_def)
qed

lemma fl64_eq:
  assumes "2 powi e \<le> \<bar>x\<bar>" "\<bar>x\<bar> < 2 powi (e + 1)" "- 1022 \<le> e"
    and "real_of_int k - 1 / 2 < x / 2 powi (e - 52)" "x / 2 powi (e - 52) < real_of_int k + 1 / 2"
  shows "fl64 x = real_of_int k * 2 powi (e - 52)"
  using fl64_eval[OF assms(1-3)] rne_eq[OF assms(4,5)] by simp

lemma fl64_representable:
  assumes "\<bar>m\<bar> < 2 ^ 53" "- 1074 \<le> e"
  shows "fl64 (real_of_int m * 2 powi e) = real_of_int m * 2 powi e"
proof (cases "m = 0")
  case True
  then show ?thesis by (simp add: fl64_zero)
next
  case False
  define x where "x = real_of_int m * 2 powi e"
  have x0: "x \<noteq> 0" using False by (simp add: x_def)
  have ax: "\<bar>x\<bar> = real_of_int \<bar>m\<bar> * 2 powi e" by (simp add: x_def abs_mult)
  have "real_of_int \<bar>m\<bar> < real_of_int (2 ^ 53)" using assms(1) by (simp only: of_int_less_iff)
  then have "real_of_int \<bar>m\<bar> < 2 powi 53" by simp
  then have "\<bar>x\<bar> < 2 powi 53 * 2 powi e" unfolding ax by (simp add: mult_strict_right_mono)
  also have "\<dots> = 2 powi (e + 53)" by (subst power_int_add) (simp_all add: mult.commute)
  finally have lt: "\<bar>x\<bar> < 2 powr real_of_int (e + 53)" by (simp only: two_powr_powi)
  have "log 2 \<bar>x\<bar> < real_of_int (e + 53)" using lt x0 by (simp add: log_less_iff)
  then have "\<lfloor>log 2 \<bar>x\<bar>\<rfloor> < e + 53" by (simp add: floor_less_iff)
  then have E: "expo x \<le> e + 52" using assms(2) by (simp add: expo_def)
  define u where "u = (2::real) powi (expo x - 52)"
  have u0: "0 < u" by (simp add: u_def)
  define d where "d = nat (e - (expo x - 52))"
  have de: "e = (expo x - 52) + int d" using E by (simp add: d_def)
  have "(2::real) powi ((expo x - 52) + int d) = 2 powi (expo x - 52) * 2 powi (int d)"
    by (rule power_int_add) simp
  then have p: "(2::real) powi e = u * real_of_int (2 ^ d)" using de by (simp add: u_def)
  have xu: "x = u * real_of_int (m * 2 ^ d)" by (simp add: x_def p)
  then have q: "x / u = real_of_int (m * 2 ^ d)" using u0 by simp
  have "fl64 x = u * real_of_int (rne (x / u))" using x0 by (simp add: fl64_def u_def)
  also have "\<dots> = u * real_of_int (m * 2 ^ d)" by (simp only: q rne_of_int)
  also have "\<dots> = x" by (simp only: xu[symmetric])
  finally show ?thesis by (simp only: x_def)
qed

lemma fl64_of_int:
  assumes "\<bar>k\<bar> \<le> 2 ^ 53"
  shows "fl64 (real_of_int k) = real_of_int k"
proof (cases "\<bar>k\<bar> = 2 ^ 53")
  case True
  then consider "k = 2 ^ 53" | "k = - (2 ^ 53)" by linarith
  then show ?thesis
  proof cases
    case 1
    have "fl64 (real_of_int (2 ^ 52) * 2 powi 1) = real_of_int (2 ^ 52) * 2 powi 1"
      by (rule fl64_representable) simp_all
    then show ?thesis using 1 by simp
  next
    case 2
    have "fl64 (real_of_int (- (2 ^ 52)) * 2 powi 1) = real_of_int (- (2 ^ 52)) * 2 powi 1"
      by (rule fl64_representable) simp_all
    then show ?thesis using 2 by simp
  qed
next
  case False
  with assms have "\<bar>k\<bar> < 2 ^ 53" by simp
  from fl64_representable[OF this, of 0] show ?thesis by simp
qed

lemma fl64_one: "fl64 1 = 1"
  using fl64_of_int[of 1] by simp

lemma fl64_rel_error:
  assumes "2 powi (- 1022) \<le> \<bar>x\<bar>"
  shows "\<bar>fl64 x - x\<bar> \<le> \<bar>x\<bar> / 2 ^ 53"
proof -
  define u where "u = (2::real) powi (expo x - 52)"
  have u0: "0 < u" by (simp add: u_def)
  have x0: "x \<noteq> 0" using assms by (smt (verit) zero_less_power_int)
  have "expo \<bar>x\<bar> = expo x" by (simp add: expo_def)
  with expo_lower[OF assms] have lo: "2 powi (expo x) \<le> \<bar>x\<bar>" by simp
  have f: "fl64 x = u * real_of_int (rne (x / u))" using x0 by (simp add: fl64_def u_def)
  have "\<bar>real_of_int (rne (x / u)) - x / u\<bar> \<le> 1 / 2"
    using rne_upper[of "x / u"] rne_lower[of "x / u"] by linarith
  then have "u * \<bar>real_of_int (rne (x / u)) - x / u\<bar> \<le> u * (1 / 2)"
    using u0 by (simp only: mult_le_cancel_left_pos)
  moreover have "u * \<bar>real_of_int (rne (x / u)) - x / u\<bar> = \<bar>fl64 x - x\<bar>"
  proof -
    have "u * \<bar>real_of_int (rne (x / u)) - x / u\<bar> = \<bar>u * (real_of_int (rne (x / u)) - x / u)\<bar>"
      using u0 by (simp add: abs_mult)
    also have "u * (real_of_int (rne (x / u)) - x / u) = fl64 x - x"
      using u0 by (simp add: f algebra_simps)
    finally show ?thesis .
  qed
  ultimately have "\<bar>fl64 x - x\<bar> \<le> u / 2" by simp
  also have "u / 2 = 2 powi (expo x) / 2 ^ 53"
    using pow2_split'[of "expo x"] by (simp add: u_def)
  also have "\<dots> \<le> \<bar>x\<bar> / 2 ^ 53" using lo by (simp add: divide_right_mono)
  finally show ?thesis .
qed

section \<open>Value to pixel scaling\<close>

lemma py_int_nonneg: "0 \<le> x \<Longrightarrow> py_int x = \<lfloor>x\<rfloor>"
  by (simp add: py_int_def)

lemma py_int_of_int: "py_int (real_of_int k) = k"
  by (simp add: py_int_def)

lemma fl64_unit_interval:
  assumes "0 \<le> x" "x \<le> 1"
  shows "0 \<le> fl64 x" "fl64 x \<le> 1"
  using fl64_nonneg[OF assms(1)] fl64_mono[OF assms(2)] by (simp_all add: fl64_one)

lemma scale_difference_le:
  assumes "v \<le> min_val + span'" "fl64 span' = span'"
  shows "fl64 (v - min_val) \<le> span'"
proof -
  have "v - min_val \<le> span'" using assms(1) by simp
  from fl64_mono[OF this] show ?thesis by (simp only: assms(2))
qed

lemma scale_value_bounds:
  assumes "0 < span'" "1 \<le> height" "height \<le> 2 ^ 53 + 1" "min_val \<le> v"
    and "fl64 (v - min_val) \<le> span'"
  shows "0 \<le> fl64 (fl64 (fl64 (v - min_val) / span') * fl64 (real_of_int (height - 1)))"
    and "fl64 (fl64 (fl64 (v - min_val) / span') * fl64 (real_of_int (height - 1)))
           \<le> real_of_int (height - 1)"
proof -
  define d where "d = fl64 (v - min_val)"
  define q where "q = fl64 (d / span')"
  have hk: "\<bar>height - 1\<bar> \<le> 2 ^ 53" using assms(2,3) by simp
  have h: "fl64 (real_of_int (height - 1)) = real_of_int (height - 1)"
    by (rule fl64_of_int[OF hk])
  have h0: "0 \<le> real_of_int (height - 1)" using assms(2) by simp
  have d0: "0 \<le> d" unfolding d_def using assms(4) by (intro fl64_nonneg) simp
  have "0 \<le> d / span'" "d / span' \<le> 1"
    using d0 assms(1,5) by (simp_all add: d_def divide_le_eq)
  from fl64_unit_interval[OF this] have q0: "0 \<le> q" and q1: "q \<le> 1" by (simp_all add: q_def)
  have x0: "0 \<le> q * real_of_int (height - 1)" using q0 h0 by (rule mult_nonneg_nonneg)
  have x1: "q * real_of_int (height - 1) \<le> real_of_int (height - 1)"
    using mult_right_mono[OF q1 h0] by simp
  have "0 \<le> fl64 (q * real_of_int (height - 1))" using x0 by (rule fl64_nonneg)
  then show "0 \<le> fl64 (fl64 (fl64 (v - min_val) / span') * fl64 (real_of_int (height - 1)))"
    by (simp only: h q_def d_def)
  have "fl64 (q * real_of_int (height - 1)) \<le> fl64 (real_of_int (height - 1))"
    using x1 by (rule fl64_mono)
  then show "fl64 (fl64 (fl64 (v - min_val) / span') * fl64 (real_of_int (height - 1)))
           \<le> real_of_int (height - 1)"
    by (simp only: h q_def d_def)
qed

text \<open>
  C3, as stated, fails: \<open>_scale\<close> converts with \<open>int\<close>, which truncates, and does not round.
  With value 1, minimum 0, span 8 and height 64 the scaled position is 7.875; \<open>_scale\<close>
  returns 7 where rounding gives 8. All numbers involved are floats and no operation rounds.
\<close>

theorem scale_round_counterexample:
  "scale 1 0 8 64 = Inr 7 \<and>
   round (((1 - 0) / 8) * real_of_int (64 - 1) :: real) = 8 \<and>
   scale 1 0 8 64 \<noteq> Inr (round (((1 - 0) / 8) * real_of_int (64 - 1) :: real))"
proof -
  have q: "fl64 (1 / 8) = 1 / 8"
    using fl64_representable[of 1 "- 3"] by simp
  have h: "fl64 63 = 63" using fl64_of_int[of 63] by simp
  have p: "fl64 (63 / 8) = 63 / 8"
    using fl64_representable[of 63 "- 3"] by simp
  have "scale 1 0 8 64 = Inr 7"
    by (simp add: scale_def py_fdiv_def fl64_one q h p py_int_def)
  moreover have "round (((1 - 0) / 8) * real_of_int (64 - 1) :: real) = 8"
    by (simp add: round_def)
  ultimately show ?thesis by simp
qed

text \<open>
  C3, amended. For a positive span, a height from 1 to \<open>2^53 + 1\<close> and a value not below
  \<open>min_val\<close> whose difference \<open>value - min_val\<close>, as the float subtraction computes it, is at
  most \<open>span\<close>, \<open>_scale\<close> raises nothing and returns \<open>((value - min_val) / span) * (height - 1)\<close>,
  evaluated in float arithmetic and then truncated toward zero, which is its floor: an integer
  from 0 to \<open>height - 1\<close>. The condition on the difference holds whenever
  \<open>value \<le> min_val + span\<close> holds for the exact sum and \<open>span\<close> is a float.
\<close>

theorem scale_truncates_in_range:
  assumes "0 < span'" "1 \<le> height" "height \<le> 2 ^ 53 + 1" "min_val \<le> v"
    and "fl64 (v - min_val) \<le> span'"
  shows "\<exists>p. scale v min_val span' height = Inr p \<and>
           p = \<lfloor>fl64 (fl64 (fl64 (v - min_val) / span') * fl64 (real_of_int (height - 1)))\<rfloor> \<and>
           0 \<le> p \<and> p \<le> height - 1"
proof -
  let ?x = "fl64 (fl64 (fl64 (v - min_val) / span') * fl64 (real_of_int (height - 1)))"
  have x0: "0 \<le> ?x" and x1: "?x \<le> real_of_int (height - 1)"
    using scale_value_bounds[OF assms] by blast+
  have eq: "scale v min_val span' height = Inr \<lfloor>?x\<rfloor>"
    using assms(1) x0 by (simp add: scale_def py_fdiv_def py_int_nonneg)
  have lo: "0 \<le> \<lfloor>?x\<rfloor>" using x0 by simp
  have hi: "\<lfloor>?x\<rfloor> \<le> height - 1" using floor_mono[OF x1] by (simp only: floor_of_int)
  from eq lo hi show ?thesis by blast
qed

theorem scale_truncates_in_range_witness:
  "(0::real) < 8 \<and> (1::int) \<le> 64 \<and> (64::int) \<le> 2 ^ 53 + 1 \<and> (0::real) \<le> 1 \<and>
   fl64 (1 - 0) \<le> 8 \<and>
   (\<exists>p. scale 1 0 8 64 = Inr p \<and> 0 \<le> p \<and> p \<le> 64 - 1)"
proof -
  have h1: "(0::real) < 8" and h2: "(1::int) \<le> 64" and h3: "(64::int) \<le> 2 ^ 53 + 1"
    and h4: "(0::real) \<le> 1" by simp_all
  have h5: "fl64 (1 - 0) \<le> 8" by (simp add: fl64_one)
  show ?thesis
    using h1 h2 h3 h4 h5 scale_truncates_in_range [OF h1 h2 h3 h4 h5] by blast
qed

lemma scale_eval:
  assumes "span' \<noteq> 0"
    and "fl64 (v - min_val) = d" "fl64 (d / span') = q" "fl64 (real_of_int (height - 1)) = h"
    and "fl64 (q * h) = p"
  shows "scale v min_val span' height = Inr (py_int p)"
  using assms by (simp add: scale_def py_fdiv_def)

text \<open>
  C4, as stated, fails for the upper endpoint. The floats 97091.06 and 4477.23 have the sum
  101568.29, and the difference of that sum and 97091.06 is 4477.229999999996, below
  the span: the quotient is 0.9999999999999992, the product with 63 is 62.99999999999995, and
  \<open>_scale\<close> returns 62, not \<open>height - 1 = 63\<close>.
\<close>

theorem scale_upper_endpoint_counterexample:
  "scale (fl64 (fl64 (9709106 / 100) + fl64 (447723 / 100)))
     (fl64 (9709106 / 100)) (fl64 (447723 / 100)) 64 = Inr 62"
proof -
  define a :: real where "a = 6672046838943580 * 2 powi (- 36)"
  define b :: real where "b = 4922766445227540 * 2 powi (- 40)"
  define s :: real where "s = 6979719741770301 * 2 powi (- 36)"
  define d :: real where "d = 4922766445227536 * 2 powi (- 40)"
  define q :: real where "q = 9007199254740985 * 2 powi (- 53)"
  define p :: real where "p = 8866461766385657 * 2 powi (- 47)"
  have a: "fl64 (9709106 / 100) = a"
    unfolding a_def using fl64_eq[of 16 "9709106 / 100" 6672046838943580] by simp
  have b: "fl64 (447723 / 100) = b"
    unfolding b_def using fl64_eq[of 12 "447723 / 100" 4922766445227540] by simp
  have s: "fl64 (a + b) = s"
    unfolding a_def b_def s_def
    using fl64_eq[of 16 "6672046838943580 * 2 powi (- 36) + 4922766445227540 * 2 powi (- 40)"
            6979719741770301] by simp
  have d: "fl64 (s - a) = d"
    unfolding a_def s_def d_def
    using fl64_eq[of 12 "6979719741770301 * 2 powi (- 36) - 6672046838943580 * 2 powi (- 36)"
            4922766445227536] by simp
  have q: "fl64 (d / b) = q"
    unfolding d_def b_def q_def
    using fl64_eq[of "- 1" "4922766445227536 * 2 powi (- 40) / (4922766445227540 * 2 powi (- 40))"
            9007199254740985] by simp
  have h: "fl64 (real_of_int (64 - 1)) = 63" using fl64_of_int[of 63] by simp
  have p: "fl64 (q * 63) = p"
    unfolding q_def p_def
    using fl64_eq[of 5 "9007199254740985 * 2 powi (- 53) * 63" 8866461766385657] by simp
  have b0: "b \<noteq> 0" by (simp add: b_def)
  have "py_int p = 62" by (simp add: p_def py_int_def)
  with scale_eval[OF b0 d q h p] show ?thesis by (simp only: a b s)
qed

text \<open>
  C4, amended. For a positive span and a height from 1 to \<open>2^53 + 1\<close>, \<open>_scale\<close> maps the
  minimum to pixel offset 0, and it maps to pixel offset \<open>height - 1\<close> every value whose
  difference \<open>value - min_val\<close>, as the float subtraction computes it, equals \<open>span\<close>: this is
  the maximum when \<open>span\<close> is \<open>max_val - min_val\<close>, as \<open>draw_chart\<close> passes them.
\<close>

theorem scale_endpoints:
  assumes "0 < span'" "1 \<le> height" "height \<le> 2 ^ 53 + 1"
  shows "scale min_val min_val span' height = Inr 0 \<and>
         (fl64 (v - min_val) = span' \<longrightarrow> scale v min_val span' height = Inr (height - 1))"
proof -
  have hk: "\<bar>height - 1\<bar> \<le> 2 ^ 53" using assms(2,3) by simp
  have h: "fl64 (real_of_int (height - 1)) = real_of_int (height - 1)"
    by (rule fl64_of_int[OF hk])
  have lo: "scale min_val min_val span' height = Inr 0"
    using assms(1) by (simp add: scale_def py_fdiv_def fl64_zero py_int_def)
  have hi: "scale v min_val span' height = Inr (height - 1)" if "fl64 (v - min_val) = span'"
  proof -
    have "scale v min_val span' height = Inr (py_int (real_of_int (height - 1)))"
      using assms(1) that h by (simp add: scale_def py_fdiv_def fl64_one)
    then show ?thesis by (simp only: py_int_of_int)
  qed
  from lo hi show ?thesis by blast
qed

theorem scale_endpoints_witness:
  "(0::real) < 300 \<and> (1::int) \<le> 64 \<and> (64::int) \<le> 2 ^ 53 + 1 \<and> fl64 (400 - 100) = 300 \<and>
   scale 100 100 300 64 = Inr 0 \<and> scale 400 100 300 64 = Inr (64 - 1)"
proof -
  have h1: "(0::real) < 300" and h2: "(1::int) \<le> 64" and h3: "(64::int) \<le> 2 ^ 53 + 1"
    by simp_all
  have h4: "fl64 (400 - 100) = 300" using fl64_of_int[of 300] by simp
  show ?thesis
    using h1 h2 h3 h4 scale_endpoints [OF h1 h2 h3, of 100 400] by simp
qed

section \<open>Horizontal gridlines\<close>

lemma hline_dashed_loop_terminates:
  assumes "0 < dash + gap"
  shows "\<exists>fb'. hline_dashed_loop fb y color dash gap end_pos pos = Some fb'"
proof (induction "nat (end_pos - pos)" arbitrary: pos fb rule: less_induct)
  case less
  show ?case
  proof (cases "pos < end_pos")
    case True
    have "nat (end_pos - (pos + (dash + gap))) < nat (end_pos - pos)"
      using True assms by simp
    from less[OF this] show ?thesis
      using True by (subst hline_dashed_loop.simps) simp
  next
    case False
    then show ?thesis by (subst hline_dashed_loop.simps) simp
  qed
qed

lemma literal_1e_6: "fl64 (1 / 1000000) = 4722366482869645 * 2 powi (- 72)"
  using fl64_eq[of "- 20" "1 / 1000000" 4722366482869645] by simp

lemma chart_span_positive: "0 < max (fl64 (max_val - min_val)) (fl64 (1 / 1000000))"
  by (simp add: literal_1e_6 less_max_iff_disj)

text \<open>
  When the float sum \<open>y + step\<close> is \<open>y\<close> again and \<open>y\<close> is not above the maximum, the loop of
  \<open>_draw_y_grid\<close> comes back to the same \<open>y\<close> after each round and never returns.
\<close>

lemma draw_y_grid_loop_absorbed:
  assumes "fl64 (yv + sv) = yv" "yv \<le> max_val"
  shows "draw_y_grid_loop fb left top' width height min_val max_val (PyFloat sv) (PyFloat yv) = None"
proof (rule ccontr)
  assume "draw_y_grid_loop fb left top' width height min_val max_val (PyFloat sv) (PyFloat yv) \<noteq> None"
  then obtain r where
    r: "draw_y_grid_loop fb left top' width height min_val max_val (PyFloat sv) (PyFloat yv) = Some r"
    by blast
  have "\<not> (min_val = min_val \<and> max_val = max_val \<and> PyFloat sv = PyFloat sv \<and>
            PyFloat yv = PyFloat yv)"
  proof (rule draw_y_grid_loop.raw_induct[where P = "\<lambda>fb0 l t w h mn mx st y r0.
            \<not> (mn = min_val \<and> mx = max_val \<and> st = PyFloat sv \<and> y = PyFloat yv)", OF _ r])
    fix loop :: "draw_op list \<Rightarrow> int \<Rightarrow> int \<Rightarrow> int \<Rightarrow> int \<Rightarrow> real \<Rightarrow> real \<Rightarrow> py_num \<Rightarrow> py_num
                   \<Rightarrow> (py_error + draw_op list) option"
    fix fb0 l t w h mn mx st y r0
    assume IH: "\<And>fb1 l t w h mn mx st y r1. loop fb1 l t w h mn mx st y = Some r1 \<Longrightarrow>
                  \<not> (mn = min_val \<and> mx = max_val \<and> st = PyFloat sv \<and> y = PyFloat yv)"
    assume body: "(if to_real y \<le> mx
      then (case scale (to_float y) mn (max (fl64 (mx - mn)) (fl64 (1 / 1000000))) h of
           Inl e \<Rightarrow> Some (Inl e)
           | Inr offset \<Rightarrow>
               (case hline_dashed fb0 l (t + h - offset) w FG_COLOR 3 2 of
               None \<Rightarrow> None
               | Some fb' \<Rightarrow>
                   loop (fb' @ [Text (format_k (to_real y)) 4 (t + h - offset - 4) FG_COLOR])
                    l t w h mn mx st (py_add y st)))
      else Some (Inr fb0)) = Some r0"
    show "\<not> (mn = min_val \<and> mx = max_val \<and> st = PyFloat sv \<and> y = PyFloat yv)"
    proof
      assume a: "mn = min_val \<and> mx = max_val \<and> st = PyFloat sv \<and> y = PyFloat yv"
      have sp: "max (fl64 (max_val - min_val)) (fl64 (1 / 1000000)) \<noteq> 0"
        using chart_span_positive[of max_val min_val] by simp
      obtain offset where
        sc: "scale yv min_val (max (fl64 (max_val - min_val)) (fl64 (1 / 1000000))) h = Inr offset"
        using sp by (simp add: scale_def py_fdiv_def)
      obtain fb1 where
        hl: "hline_dashed fb0 l (t + h - offset) w FG_COLOR 3 2 = Some fb1"
        unfolding hline_dashed_def using hline_dashed_loop_terminates[of 3 2] by fastforce
      have nx: "py_add (PyFloat yv) (PyFloat sv) = PyFloat yv"
        using assms(1) by simp
      from body a assms(2) sc hl nx
      have "loop (fb1 @ [Text (format_k yv) 4 (t + h - offset - 4) FG_COLOR])
              l t w h min_val max_val (PyFloat sv) (PyFloat yv) = Some r0"
        by simp
      from IH[OF this] show False by simp
    qed
  qed
  then show False by simp
qed


lemma floor_between:
  assumes "real_of_int k \<le> x" "x < real_of_int k + 1"
  shows "\<lfloor>x\<rfloor> = k"
  using assms by (rule floor_unique)

lemma nice_step_1e_6:
  "nice_step (fl64 (1 / 1000000)) = Inr (PyFloat (7555786372591432 * 2 powi (- 75)))"
proof -
  define s6 :: real where "s6 = 4722366482869645 * 2 powi (- 72)"
  define rough :: real where "rough = 4722366482869645 * 2 powi (- 74)"
  define m7 :: real where "m7 = 7555786372591432 * 2 powi (- 76)"
  define c2 :: real where "c2 = 7555786372591432 * 2 powi (- 75)"
  have s6: "fl64 (1 / 1000000) = s6" by (simp only: literal_1e_6 s6_def)
  have rough: "fl64 (s6 / 4) = rough"
    unfolding s6_def rough_def using fl64_representable[of 4722366482869645 "- 74"] by simp
  have r0: "0 < rough" by (simp add: rough_def)
  have lo: "- 7 \<le> log 10 rough"
  proof -
    have "10 powr (- 7) \<le> rough" by (simp add: rough_def powr_minus_divide)
    then show ?thesis using r0 by (simp add: le_log_iff)
  qed
  have hi: "log 10 rough \<le> - 13 / 2"
  proof -
    have "rough ^ 2 \<le> 10 powr (- 13)"
      by (simp add: rough_def powr_minus_divide power2_eq_square)
    moreover have "0 < rough ^ 2" using r0 by simp
    ultimately have "log 10 (rough ^ 2) \<le> - 13" by (simp add: log_le_iff)
    moreover have "log 10 (rough ^ 2) = 2 * log 10 rough"
      using r0 by (simp add: log_nat_power)
    ultimately show ?thesis by simp
  qed
  have f7: "fl64 (- 7) = - 7" using fl64_of_int[of "- 7"] by simp
  have f65: "fl64 (- 13 / 2) = - 13 / 2" using fl64_representable[of "- 13" "- 1"] by simp
  have "- 7 \<le> fl64 (log 10 rough)" using fl64_mono[OF lo] by (simp only: f7)
  moreover have "fl64 (log 10 rough) \<le> - 13 / 2" using fl64_mono[OF hi] by (simp only: f65)
  ultimately have k: "\<lfloor>fl64 (log 10 rough)\<rfloor> = - 7"
    by (intro floor_between) simp_all
  have m7: "fl64 (10 powi (- 7)) = m7"
    unfolding m7_def using fl64_eq[of "- 24" "10 powi (- 7)" 7555786372591432] by simp
  have "py_pow10 (- 7) = PyFloat (fl64 (10 powi (- 7)))" by (simp add: py_pow10_def)
  then have mag: "py_pow10 (- 7) = PyFloat m7" by (simp only: m7)
  have c1: "fl64 (fl64 1 * m7) = m7"
    unfolding m7_def using fl64_representable[of 7555786372591432 "- 76"] by (simp add: fl64_one)
  have q1: "fl64 (s6 / m7) = 10"
    unfolding s6_def m7_def
    using fl64_eq[of 3 "4722366482869645 * 2 powi (- 72) / (7555786372591432 * 2 powi (- 76))"
            5629499534213120] by simp
  have two: "fl64 2 = 2" using fl64_of_int[of 2] by simp
  have c2: "fl64 (fl64 2 * m7) = c2"
    unfolding m7_def c2_def using fl64_representable[of 7555786372591432 "- 75"] by (simp add: two)
  have q2: "fl64 (s6 / c2) = 5"
    unfolding s6_def c2_def
    using fl64_eq[of 2 "4722366482869645 * 2 powi (- 72) / (7555786372591432 * 2 powi (- 75))"
            5629499534213120] by simp
  have m70: "m7 \<noteq> 0" and c20: "c2 \<noteq> 0" by (simp_all add: m7_def c2_def)
  have "nice_step_loop s6 (PyFloat m7) [1, 2, 5, 10] = Inr (PyFloat c2)"
    using m70 c20 by (simp add: py_fdiv_def c1 q1 c2 q2)
  then have "nice_step s6 = Inr (PyFloat c2)"
    using r0 by (simp add: nice_step_def rough py_log10_def k mag del: nice_step_loop.simps)
  then show ?thesis by (simp only: s6 c2_def)
qed

lemma draw_y_grid_flat_1e11:
  "draw_y_grid fb left top' width height 100000000000 100000000000
     (PyFloat (7555786372591432 * 2 powi (- 75))) = None"
proof -
  define c2 :: real where "c2 = 7555786372591432 * 2 powi (- 75)"
  have c20: "c2 \<noteq> 0" by (simp add: c2_def)
  have q: "fl64 (100000000000 / c2) = real_of_int 500000000000000000"
    unfolding c2_def
    using fl64_eq[of 58 "100000000000 / (7555786372591432 * 2 powi (- 75))" 7812500000000000]
    by simp
  have n: "fl64 (real_of_int 500000000000000000) = real_of_int 500000000000000000"
    using fl64_representable[of 7812500000000000 6] by simp
  have start: "fl64 (real_of_int 500000000000000000 * c2) = 100000000000"
    unfolding c2_def
    using fl64_eq[of 36 "real_of_int 500000000000000000 * (7555786372591432 * 2 powi (- 75))"
            6553600000000000] by simp
  have absorbed: "fl64 (100000000000 + c2) = 100000000000"
    unfolding c2_def
    using fl64_eq[of 36 "100000000000 + 7555786372591432 * 2 powi (- 75)" 6553600000000000]
    by simp
  have "draw_y_grid_loop fb left top' width height 100000000000 100000000000
          (PyFloat c2) (PyFloat 100000000000) = None"
    by (rule draw_y_grid_loop_absorbed[OF absorbed]) simp
  then have "draw_y_grid fb left top' width height 100000000000 100000000000 (PyFloat c2) = None"
    using c20 by (simp add: draw_y_grid_def py_fdiv_def q n start del: of_int_numeral)
  then show ?thesis by (simp only: c2_def)
qed

text \<open>
  C10. The claim is that \<open>_draw_y_grid\<close> returns for every span \<open>draw_chart\<close> can pass. For a
  history that holds the single float 100000000000.0 the minimum and the maximum are equal,
  the span is the literal 1e-6 and \<open>_nice_step\<close> returns the step 2e-07. The first gridline is
  at 100000000000.0, not above the maximum, and the float sum of 100000000000.0 and 2e-07 is
  100000000000.0 again: the loop of \<open>_draw_y_grid\<close> never ends, and \<open>draw_chart\<close> does not
  return.
\<close>

theorem draw_chart_flat_history_diverges:
  "draw_chart fb \<lparr>length_rb = n, data = [100000000000]\<rparr> span_label = None"
proof -
  have mm: "minmax \<lparr>length_rb = n, data = [100000000000]\<rparr> = Inr (100000000000, 100000000000)"
    by (simp add: minmax_def)
  have sp: "max (fl64 (100000000000 - 100000000000)) (fl64 (1 / 1000000)) = fl64 (1 / 1000000)"
    using chart_span_positive[of 0 0] by (simp add: fl64_zero)
  show ?thesis
    by (simp only: draw_chart_def Let_def ringbuffer.select_convs list.distinct if_False mm
          sum.case prod.case sp nice_step_1e_6 draw_y_grid_flat_1e11 option.case)
qed

section \<open>Axis step\<close>

lemma fl64_pow2: 
  assumes "- 1074 \<le> e"
  shows "fl64 (2 powi e) = 2 powi e"
  using fl64_representable[of 1 e] assms by simp

lemma fl64_ge_nine_tenths:
  assumes "2 powi (- 1022) \<le> y"
  shows "9 / 10 * y \<le> fl64 y"
proof -
  have y0: "0 < y" using assms by (smt (verit) zero_less_power_int)
  have "2 powi (- 1022) \<le> \<bar>y\<bar>" using assms y0 by simp
  then have "\<bar>fl64 y - y\<bar> \<le> \<bar>y\<bar> / 2 ^ 53" by (rule fl64_rel_error)
  then have a: "y - y / 2 ^ 53 \<le> fl64 y" using y0 by linarith
  have "y / 2 ^ 53 \<le> y / 10" using y0 by (intro divide_left_mono) simp_all
  with a show ?thesis by linarith
qed

lemma fl64_normal_pos:
  assumes "2 powi (- 1022) \<le> y"
  shows "0 < fl64 y"
proof -
  have "0 < y" using assms by (smt (verit) zero_less_power_int)
  then have "0 < 9 / 10 * y" by simp
  with fl64_ge_nine_tenths[OF assms] show ?thesis by linarith
qed

lemma magnitude_brackets:
  assumes "0 < x"
  shows "(10::real) powi \<lfloor>log 10 x\<rfloor> \<le> x" and "x < 10 * 10 powi \<lfloor>log 10 x\<rfloor>"
proof -
  define k where "k = \<lfloor>log 10 x\<rfloor>"
  have "10 powr real_of_int k \<le> x \<and> x < 10 powr real_of_int (k + 1)"
    using floor_log_eq_powr_iff[of x 10 k] assms by (simp add: k_def)
  moreover have "(10::real) powr real_of_int k = 10 powi k"
    by (simp add: powr_real_of_int')
  moreover have "(10::real) powr real_of_int (k + 1) = 10 powi (k + 1)"
    by (rule powr_real_of_int') simp_all
  moreover have "(10::real) powi (k + 1) = 10 * 10 powi k"
    by (simp add: power_int_add)
  ultimately show "10 powi \<lfloor>log 10 x\<rfloor> \<le> x" "x < 10 * 10 powi \<lfloor>log 10 x\<rfloor>"
    by (simp_all add: k_def)
qed

text \<open>The float magnitude of a candidate: \<open>10 ** k\<close> converted to a float.\<close>

lemma candidate_to_float:
  assumes "g \<in> {1, 2, 5, 10}"
  shows "to_float (py_mul (PyInt g) (py_pow10 k)) =
           fl64 (real_of_int g * (if 0 \<le> k then 10 powi k else fl64 (10 powi k)))"
proof -
  have g: "fl64 (real_of_int g) = real_of_int g" using assms by (intro fl64_of_int) auto
  show ?thesis
  proof (cases "0 \<le> k")
    case True
    then have "(10::real) powi k = 10 ^ nat k" by (simp add: power_int_def)
    with True show ?thesis by (simp add: py_pow10_def)
  next
    case False
    then show ?thesis by (simp add: py_pow10_def g)
  qed
qed

lemma candidate_to_real:
  assumes "g \<in> {1, 2, 5, 10}"
  shows "to_real (py_mul (PyInt g) (py_pow10 k)) =
           (if 0 \<le> k then real_of_int g * 10 powi k
            else fl64 (real_of_int g * fl64 (10 powi k)))"
proof -
  have g: "fl64 (real_of_int g) = real_of_int g" using assms by (intro fl64_of_int) auto
  show ?thesis
  proof (cases "0 \<le> k")
    case True
    then have "(10::real) powi k = 10 ^ nat k" by (simp add: power_int_def)
    with True show ?thesis by (simp add: py_pow10_def)
  next
    case False
    then show ?thesis by (simp add: py_pow10_def g)
  qed
qed

lemma candidate_mono:
  assumes "g \<in> {1, 2, 5, 10}" "g' \<in> {1, 2, 5, 10}" "g \<le> g'"
  shows "to_real (py_mul (PyInt g) (py_pow10 k)) \<le> to_real (py_mul (PyInt g') (py_pow10 k))"
proof (cases "0 \<le> k")
  case True
  have "real_of_int g * 10 powi k \<le> real_of_int g' * 10 powi k"
    using assms(3) by (intro mult_right_mono) simp_all
  then show ?thesis using True by (simp only: candidate_to_real[OF assms(1)] candidate_to_real[OF assms(2)] if_True)
next
  case False
  have "0 \<le> fl64 (10 powi k)" by (intro fl64_nonneg) simp
  then have "real_of_int g * fl64 (10 powi k) \<le> real_of_int g' * fl64 (10 powi k)"
    using assms(3) by (intro mult_right_mono) simp_all
  from fl64_mono[OF this] show ?thesis
    using False by (simp only: candidate_to_real[OF assms(1)] candidate_to_real[OF assms(2)] if_False)
qed

lemma nice_step_loop_step:
  assumes "to_float (py_mul (PyInt g) m) \<noteq> 0"
  shows "nice_step_loop s m (g # gs) =
           (if fl64 (s / to_float (py_mul (PyInt g) m)) \<le> 6 then Inr (py_mul (PyInt g) m)
            else nice_step_loop s m gs)"
  using assms by (simp add: py_fdiv_def Let_def)

lemma nice_step_loop_first:
  assumes nz: "\<forall>g \<in> {1, 2, 5, 10}. to_float (py_mul (PyInt g) (py_pow10 k)) \<noteq> 0"
    and last: "fl64 (s / to_float (py_mul (PyInt 10) (py_pow10 k))) \<le> 6"
  shows "\<exists>f \<in> {1, 2, 5, 10}.
           nice_step_loop s (py_pow10 k) [1, 2, 5, 10] = Inr (py_mul (PyInt f) (py_pow10 k)) \<and>
           fl64 (s / to_float (py_mul (PyInt f) (py_pow10 k))) \<le> 6 \<and>
           (\<forall>g \<in> {1, 2, 5, 10}. fl64 (s / to_float (py_mul (PyInt g) (py_pow10 k))) \<le> 6 \<longrightarrow>
              to_real (py_mul (PyInt f) (py_pow10 k)) \<le> to_real (py_mul (PyInt g) (py_pow10 k)))"
proof -
  define m where "m = py_pow10 k"
  define c where "c = (\<lambda>g. py_mul (PyInt g) m)"
  define q where "q = (\<lambda>g. fl64 (s / to_float (c g)))"
  have nz1: "to_float (py_mul (PyInt 1) m) \<noteq> 0" and nz2: "to_float (py_mul (PyInt 2) m) \<noteq> 0"
    and nz5: "to_float (py_mul (PyInt 5) m) \<noteq> 0" and nz10: "to_float (py_mul (PyInt 10) m) \<noteq> 0"
    using nz by (simp_all add: m_def)
  have mono: "to_real (c g) \<le> to_real (c g')" if "g \<in> {1, 2, 5, 10}" "g' \<in> {1, 2, 5, 10}" "g \<le> g'"
    for g g' unfolding c_def m_def using that by (rule candidate_mono)
  have l1: "nice_step_loop s m [1, 2, 5, 10] =
              (if q 1 \<le> 6 then Inr (c 1) else nice_step_loop s m [2, 5, 10])"
    by (simp only: nice_step_loop_step[OF nz1] q_def c_def)
  have l2: "nice_step_loop s m [2, 5, 10] =
              (if q 2 \<le> 6 then Inr (c 2) else nice_step_loop s m [5, 10])"
    by (simp only: nice_step_loop_step[OF nz2] q_def c_def)
  have l5: "nice_step_loop s m [5, 10] =
              (if q 5 \<le> 6 then Inr (c 5) else nice_step_loop s m [10])"
    by (simp only: nice_step_loop_step[OF nz5] q_def c_def)
  have l10: "nice_step_loop s m [10] =
              (if q 10 \<le> 6 then Inr (c 10) else nice_step_loop s m [])"
    by (simp only: nice_step_loop_step[OF nz10] q_def c_def)
  have last': "q 10 \<le> 6" using last by (simp only: q_def c_def m_def)
  consider (a) "q 1 \<le> 6"
    | (b) "\<not> q 1 \<le> 6" "q 2 \<le> 6"
    | (c) "\<not> q 1 \<le> 6" "\<not> q 2 \<le> 6" "q 5 \<le> 6"
    | (d) "\<not> q 1 \<le> 6" "\<not> q 2 \<le> 6" "\<not> q 5 \<le> 6"
    by blast
  then have "\<exists>f \<in> {1, 2, 5, 10}. nice_step_loop s m [1, 2, 5, 10] = Inr (c f) \<and>
               q f \<le> 6 \<and> (\<forall>g \<in> {1, 2, 5, 10}. q g \<le> 6 \<longrightarrow> to_real (c f) \<le> to_real (c g))"
  proof cases
    case a
    have e: "nice_step_loop s m [1, 2, 5, 10] = Inr (c 1)" using a by (simp only: l1 if_True)
    have "to_real (c 1) \<le> to_real (c g)" if "g \<in> {1, 2, 5, 10}" for g
    proof -
      from that have "1 \<le> g" by auto
      with that show ?thesis by (intro mono) simp_all
    qed
    with e a show ?thesis by blast
  next
    case b
    have e: "nice_step_loop s m [1, 2, 5, 10] = Inr (c 2)"
      using b by (simp only: l1 l2 if_True if_False)
    have "to_real (c 2) \<le> to_real (c g)" if "g \<in> {1, 2, 5, 10}" "q g \<le> 6" for g
    proof -
      from that b(1) have "g \<noteq> 1" by blast
      with that(1) have "g \<in> {1, 2, 5, 10}" "2 \<le> g" by auto
      then show ?thesis by (intro mono) simp_all
    qed
    moreover have "(2::int) \<in> {1, 2, 5, 10}" by simp
    ultimately show ?thesis using e b(2) by blast
  next
    case c
    have e: "nice_step_loop s m [1, 2, 5, 10] = Inr (c 5)"
      using c by (simp only: l1 l2 l5 if_True if_False)
    have "to_real (c 5) \<le> to_real (c g)" if "g \<in> {1, 2, 5, 10}" "q g \<le> 6" for g
    proof -
      from that c(1,2) have "g \<noteq> 1" "g \<noteq> 2" by blast+
      with that(1) have "g \<in> {1, 2, 5, 10}" "5 \<le> g" by auto
      then show ?thesis by (intro mono) simp_all
    qed
    moreover have "(5::int) \<in> {1, 2, 5, 10}" by simp
    ultimately show ?thesis using e c(3) by blast
  next
    case d
    have e: "nice_step_loop s m [1, 2, 5, 10] = Inr (c 10)"
      using d last' by (simp only: l1 l2 l5 l10 if_True if_False)
    have "to_real (c 10) \<le> to_real (c g)" if "g \<in> {1, 2, 5, 10}" "q g \<le> 6" for g
    proof -
      from that d have "g \<noteq> 1" "g \<noteq> 2" "g \<noteq> 5" by blast+
      with that(1) have "g = 10" by auto
      then show ?thesis by simp
    qed
    moreover have "(10::int) \<in> {1, 2, 5, 10}" by simp
    ultimately show ?thesis using e last' by blast
  qed
  then show ?thesis by (simp only: c_def q_def m_def)
qed

lemma pow2_sum: "a = b + c \<Longrightarrow> (2::real) powi a = 2 powi b * 2 powi c"
  by (simp add: power_int_add)

lemma pow2_times4: "a = e + 2 \<Longrightarrow> (2::real) powi a = 4 * 2 powi e"
  using pow2_sum[of a 2 e] by simp

lemma nice_step_in_range:
  assumes lo: "2 powi (- 1000) \<le> s" and hi: "s < 2 powi 1024"
  shows "\<exists>f \<in> {1, 2, 5, 10}.
           nice_step s = Inr (step_candidate s f) \<and>
           fl64 (s / to_float (step_candidate s f)) \<le> 6 \<and>
           (\<forall>g \<in> {1, 2, 5, 10}. fl64 (s / to_float (step_candidate s g)) \<le> 6 \<longrightarrow>
              to_real (step_candidate s f) \<le> to_real (step_candidate s g))"
proof -
  define r where "r = fl64 (s / 4)"
  define k0 where "k0 = \<lfloor>log 10 r\<rfloor>"
  define k where "k = \<lfloor>fl64 (log 10 r)\<rfloor>"
  define T where "T = (10::real) powi k"
  define mf where "mf = (if 0 \<le> k then T else fl64 T)"
  have s0: "0 < s" using lo by (smt (verit) zero_less_power_int)
  have q4: "2 powi (- 1002) \<le> s / 4"
  proof -
    have "(2::real) powi (- 1000) = 4 * 2 powi (- 1002)" by (rule pow2_times4) simp
    with lo show ?thesis by linarith
  qed
  have p1: "fl64 (2 powi (- 1002)) = 2 powi (- 1002)" by (rule fl64_pow2) simp
  have p2: "fl64 (2 powi 1022) = 2 powi 1022" by (rule fl64_pow2) simp
  have r_lo: "2 powi (- 1002) \<le> r"
    unfolding r_def using fl64_mono[OF q4] by (simp only: p1)
  have r0: "0 < r" using r_lo by (smt (verit) zero_less_power_int)
  have r_hi: "r \<le> 2 powi 1022"
  proof -
    have "(2::real) powi 1024 = 4 * 2 powi 1022" by (rule pow2_times4) simp
    with hi have "s / 4 \<le> 2 powi 1022" by linarith
    from fl64_mono[OF this] show ?thesis
      unfolding r_def by (simp only: p2)
  qed
  have r_s: "9 / 10 * (s / 4) \<le> r"
  proof -
    have "(2::real) powi (- 1022) \<le> 2 powi (- 1002)" by (intro power_int_increasing) simp_all
    with q4 have "2 powi (- 1022) \<le> s / 4" by linarith
    then show ?thesis unfolding r_def by (rule fl64_ge_nine_tenths)
  qed
  have l_lo: "- 1002 \<le> log 10 r"
  proof -
    have "(10::real) powi (- 1002) \<le> 2 powi (- 1002)"
      by (rule power_int_antimono) simp_all
    moreover have "(10::real) powr real_of_int (- 1002) = 10 powi (- 1002)"
      by (rule powr_real_of_int') simp_all
    ultimately have "10 powr real_of_int (- 1002) \<le> r" using r_lo by linarith
    then have "real_of_int (- 1002) \<le> log 10 r" using r0 by (simp only: le_log_iff)
    then show ?thesis by simp
  qed
  have l_hi: "log 10 r \<le> 1022"
  proof -
    have "(2::real) powi 1022 \<le> 10 powi 1022"
      by (rule power_int_mono) simp_all
    moreover have "(10::real) powr real_of_int 1022 = 10 powi 1022"
      by (rule powr_real_of_int') simp_all
    ultimately have "r \<le> 10 powr real_of_int 1022" using r_hi by linarith
    then have "log 10 r \<le> real_of_int 1022" using r0 by (simp only: log_le_iff)
    then show ?thesis by simp
  qed
  have "- 1002 \<le> k0" using l_lo by (simp add: k0_def le_floor_iff)
  moreover have "k0 \<le> 1022" using l_hi by (simp add: k0_def floor_le_iff)
  ultimately have "\<bar>k0\<bar> \<le> 2 ^ 53" by simp
  then have fk0: "fl64 (real_of_int k0) = real_of_int k0" by (rule fl64_of_int)
  have "real_of_int k0 \<le> log 10 r" by (simp add: k0_def)
  from fl64_mono[OF this] have "real_of_int k0 \<le> fl64 (log 10 r)" by (simp only: fk0)
  then have kk: "k0 \<le> k" by (simp add: k_def le_floor_iff)
  have T0: "0 < T" by (simp add: T_def)
  have "(10::real) powi k0 \<le> 10 powi k" using kk by (intro power_int_increasing) simp_all
  moreover have "r < 10 * 10 powi k0" unfolding k0_def by (rule magnitude_brackets(2)[OF r0])
  ultimately have rT: "r < 10 * T" by (simp add: T_def)
  have T_lo: "2 powi (- 1002) / 10 < T" using rT r_lo by linarith
  have small: "(2::real) powi (- 1022) \<le> 9 / 10 * (2 powi (- 1002) / 10)"
  proof -
    have e: "(2::real) powi (- 1022) = 2 powi (- 20) * 2 powi (- 1002)"
      by (rule pow2_sum) simp
    have "(2::real) powi (- 20) \<le> 9 / 100" by simp
    moreover have "0 \<le> (2::real) powi (- 1002)" by simp
    ultimately have "2 powi (- 20) * 2 powi (- 1002) \<le> 9 / 100 * (2::real) powi (- 1002)"
      by (rule mult_right_mono)
    then have "2 powi (- 1022) \<le> 9 / 100 * (2::real) powi (- 1002)" by (simp only: e)
    moreover have g: "9 / 100 * x = 9 / 10 * (x / 10)" for x :: real by simp
    ultimately show ?thesis by (simp only: g)
  qed
  have P0: "0 < (2::real) powi (- 1002)" by (rule zero_less_power_int) simp
  have T_norm: "2 powi (- 1022) \<le> T" using T_lo small P0 by linarith
  have mf_T: "9 / 10 * T \<le> mf"
  proof (cases "0 \<le> k")
    case True
    then show ?thesis using T0 by (simp add: mf_def)
  next
    case False
    then show ?thesis using fl64_ge_nine_tenths[OF T_norm] by (simp add: mf_def)
  qed
  have mf_lo: "2 powi (- 1022) \<le> mf" using mf_T T_lo small P0 by linarith
  have P1: "0 < (2::real) powi (- 1022)" by (rule zero_less_power_int) simp
  have mf0: "0 < mf" using mf_lo P1 by linarith
  have cf: "to_float (py_mul (PyInt g) (py_pow10 k)) = fl64 (real_of_int g * mf)"
    if "g \<in> {1, 2, 5, 10}" for g
    using candidate_to_float[OF that, of k] by (simp only: mf_def T_def)
  have gmf: "2 powi (- 1022) \<le> real_of_int g * mf" if "g \<in> {1, 2, 5, 10}" for g
  proof -
    from that have "1 \<le> real_of_int g" by auto
    then have "1 * mf \<le> real_of_int g * mf" using mf0 by (intro mult_right_mono) simp_all
    then have "mf \<le> real_of_int g * mf" by (simp only: mult_1)
    with mf_lo show ?thesis by linarith
  qed
  have nz: "\<forall>g \<in> {1, 2, 5, 10}. to_float (py_mul (PyInt g) (py_pow10 k)) \<noteq> 0"
  proof
    fix g :: int assume g: "g \<in> {1, 2, 5, 10}"
    from fl64_normal_pos[OF gmf[OF g]] have "fl64 (real_of_int g * mf) \<noteq> 0" by linarith
    then show "to_float (py_mul (PyInt g) (py_pow10 k)) \<noteq> 0"
      by (simp only: cf[OF g] not_False_eq_True)
  qed
  have ten: "(10::int) \<in> {1, 2, 5, 10}" by simp
  define c10 where "c10 = fl64 (real_of_int 10 * mf)"
  have c10_lo: "9 / 10 * (real_of_int 10 * mf) \<le> c10"
    unfolding c10_def by (rule fl64_ge_nine_tenths[OF gmf[OF ten]])
  have ten_r: "real_of_int 10 = 10" by simp
  have "81 / 10 * T \<le> c10" using c10_lo mf_T unfolding ten_r by linarith
  with rT have "81 / 100 * r < c10" by linarith
  with r_s have c10_s: "81 / 100 * (9 / 10 * (s / 4)) < c10" by linarith
  have c10_pos: "0 < c10" using c10_s s0 by linarith
  have "s \<le> 6 * c10" using c10_s s0 by linarith
  then have "s / c10 \<le> 6" using c10_pos by (simp add: divide_le_eq)
  from fl64_mono[OF this] have "fl64 (s / c10) \<le> 6" using fl64_of_int[of 6] by simp
  then have last: "fl64 (s / to_float (py_mul (PyInt 10) (py_pow10 k))) \<le> 6"
    by (simp only: cf[OF ten] c10_def)
  have ns: "nice_step s = nice_step_loop s (py_pow10 k) [1, 2, 5, 10]"
    using r0 by (simp add: nice_step_def py_log10_def r_def [symmetric] k_def [symmetric]
                  del: nice_step_loop.simps)
  have sc: "step_candidate s g = py_mul (PyInt g) (py_pow10 k)" for g
    by (simp only: step_candidate_def k_def r_def)
  from nice_step_loop_first[OF nz last, of ] show ?thesis
    by (simp only: ns sc)
qed

lemma nice_step_nonpositive:
  assumes "s \<le> 0"
  shows "nice_step s = Inr (PyInt 1)"
proof -
  have "s / 4 \<le> 0" using assms by simp
  from fl64_mono[OF this] have r: "\<not> 0 < fl64 (s / 4)" by (simp add: fl64_zero)
  from fl64_mono[OF assms] have q: "fl64 s \<le> 6" by (simp add: fl64_zero)
  show ?thesis using r q by (simp add: nice_step_def py_fdiv_def fl64_one)
qed

lemma literal_3e_323: "fl64 (3 / 10 ^ 323) = 6 * 2 powi (- 1074)"
proof -
  have a: "\<bar>3 / 10 ^ 323 :: real\<bar> < 2 powi (- 1022)" by simp
  have "rne (3 / 10 ^ 323 / 2 powi (- 1074)) = 6"
    by (rule rne_eq) simp_all
  with fl64_eval_subnormal[OF a] show ?thesis by simp
qed

lemma pow10_324_underflows: "fl64 (10 powi (- 324)) = 0"
proof -
  have a: "\<bar>10 powi (- 324) :: real\<bar> < 2 powi (- 1022)" by simp
  have "rne (10 powi (- 324) / 2 powi (- 1074)) = 0"
    by (rule rne_eq) simp_all
  with fl64_eval_subnormal[OF a] show ?thesis by simp
qed

lemma quarter_of_3e_323: "fl64 (6 * 2 powi (- 1074) / 4) = 2 * 2 powi (- 1074)"
proof -
  define P :: real where "P = 2 powi (- 1074)"
  have P0: "0 < P" unfolding P_def by (rule zero_less_power_int) simp
  have "(2::real) powi (- 1022) = 2 powi 52 * 2 powi (- 1074)" by (rule pow2_sum) simp
  then have n: "(2::real) powi (- 1022) = 4503599627370496 * P" by (simp add: P_def)
  have "\<bar>6 * P / 4\<bar> = 6 * P / 4" using P0 by simp
  moreover have "6 * P / 4 < 4503599627370496 * P" using P0 by linarith
  ultimately have a: "\<bar>6 * P / 4\<bar> < 2 powi (- 1022)" by (simp only: n)
  have "6 * P / 4 / P = real_of_int 1 + 1 / 2" using P0 by simp
  then have "rne (6 * P / 4 / P) = 1 + 1" by (rule rne_tie_odd) simp
  with fl64_eval_subnormal[OF a] have "fl64 (6 * P / 4) = 2 * P" by (simp add: P_def)
  then show ?thesis by (simp only: P_def)
qed

lemma log10_2_bounds: "351 \<le> 1166 * log 10 2" "93 * log 10 2 \<le> 28"
proof -
  define A :: real where "A = 10 ^ 351"
  define B :: real where "B = 2 ^ 1166"
  have ab: "A \<le> B" unfolding A_def B_def by simp
  have a0: "0 < A" unfolding A_def by simp
  have la: "log 10 A = 351" unfolding A_def by (simp only: log_pow_cancel; simp)
  have lb: "log 10 B = 1166 * log 10 2" unfolding B_def by (simp only: log_nat_power; simp)
  have "log 10 A \<le> log 10 B" using ab a0 by simp
  with la lb show "351 \<le> 1166 * log 10 2" by linarith
  define C :: real where "C = 2 ^ 93"
  define D :: real where "D = 10 ^ 28"
  have cd: "C \<le> D" unfolding C_def D_def by simp
  have c0: "0 < C" unfolding C_def by simp
  have lc: "log 10 C = 93 * log 10 2" unfolding C_def by (simp only: log_nat_power; simp)
  have ld: "log 10 D = 28" unfolding D_def by (simp only: log_pow_cancel; simp)
  have "log 10 C \<le> log 10 D" using cd c0 by simp
  with lc ld show "93 * log 10 2 \<le> 28" by linarith
qed

lemma log10_smallest_rough:
  "- 324 \<le> log 10 (2 * 2 powi (- 1074))" "log 10 (2 * 2 powi (- 1074)) \<le> - 82689 / 256"
proof -
  have "(2::real) powi (- 1073) = 2 powi 1 * 2 powi (- 1074)" by (rule pow2_sum) simp
  then have e: "(2::real) * 2 powi (- 1074) = 2 powr real_of_int (- 1073)"
    by (simp only: two_powr_powi power_int_1_right)
  have "log 10 (2 powr real_of_int (- 1073)) = real_of_int (- 1073) * log 10 2"
    by (simp add: log_powr)
  moreover have "real_of_int (- 1073) = - 1073" by simp
  ultimately have l: "log 10 (2 * 2 powi (- 1074)) = - 1073 * log 10 2"
    by (simp only: e)
  show "- 324 \<le> log 10 (2 * 2 powi (- 1074))"
    unfolding l using log10_2_bounds(2) by linarith
  show "log 10 (2 * 2 powi (- 1074)) \<le> - 82689 / 256"
    unfolding l using log10_2_bounds(1) by linarith
qed


text \<open>
  C7, as stated, fails for small positive spans. For the float 3e-323 the quarter is 1e-323,
  the floor of its decimal logarithm is -324, and the float power \<open>10 ** -324\<close> is 0.0: the
  first candidate step is 0.0 and \<open>span / step\<close> raises ZeroDivisionError, so no step is
  returned.
\<close>

theorem nice_step_underflow_counterexample:
  "0 < fl64 (3 / 10 ^ 323) \<and> nice_step (fl64 (3 / 10 ^ 323)) = Inl ZeroDivisionError"
proof -
  define P :: real where "P = 2 powi (- 1074)"
  have P0: "0 < P" unfolding P_def by (rule zero_less_power_int) simp
  define sp where "sp = 6 * P"
  have sp: "fl64 (3 / 10 ^ 323) = sp" by (simp only: literal_3e_323 sp_def P_def)
  have sp0: "0 < sp" using P0 by (simp add: sp_def)
  have rough: "fl64 (sp / 4) = 2 * P" by (simp only: sp_def P_def quarter_of_3e_323)
  have r0: "0 < 2 * P" using P0 by simp
  have l1: "- 324 \<le> log 10 (2 * P)" and l2: "log 10 (2 * P) \<le> - 82689 / 256"
    unfolding P_def by (rule log10_smallest_rough)+
  have f1: "fl64 (- 324) = - 324" using fl64_of_int[of "- 324"] by simp
  have f2: "fl64 (- 82689 / 256) = - 82689 / 256"
    using fl64_representable[of "- 82689" "- 8"] by simp
  have "- 324 \<le> fl64 (log 10 (2 * P))" using fl64_mono[OF l1] by (simp only: f1)
  moreover have "fl64 (log 10 (2 * P)) \<le> - 82689 / 256" using fl64_mono[OF l2] by (simp only: f2)
  ultimately have k: "\<lfloor>fl64 (log 10 (2 * P))\<rfloor> = - 324"
    by (intro floor_between) simp_all
  have "py_pow10 (- 324) = PyFloat (fl64 (10 powi (- 324)))" by (simp add: py_pow10_def)
  then have mag: "py_pow10 (- 324) = PyFloat 0" by (simp only: pow10_324_underflows)
  have loop: "nice_step_loop sp (PyFloat 0) [1, 2, 5, 10] = Inl ZeroDivisionError"
    by (simp add: py_fdiv_def fl64_zero)
  have "nice_step sp = Inl ZeroDivisionError"
    using r0 by (simp add: nice_step_def rough py_log10_def k mag loop
                   del: nice_step_loop.simps)
  with sp0 show ?thesis by (simp only: sp)
qed

text \<open>
  C7, amended. For every span from \<open>2^-1000\<close> up to the float range, \<open>_nice_step\<close> returns the
  smallest of the candidates \<open>factor * 10 ** k\<close>, \<open>factor\<close> in 1, 2, 5, 10 and
  \<open>k = floor(log10(span / 4))\<close>, for which \<open>span / step \<le> 6\<close>, where the candidates, the
  logarithm and the quotient are the values the float arithmetic of the code computes. For a
  span that is zero or negative the call raises nothing (no logarithm is taken and nothing is
  divided by zero) and returns a positive step.
\<close>

theorem nice_step_smallest_candidate:
  "(2 powi (- 1000) \<le> span' \<and> span' < 2 powi 1024 \<longrightarrow>
      (\<exists>f \<in> {1, 2, 5, 10}.
         nice_step span' = Inr (step_candidate span' f) \<and>
         fl64 (span' / to_float (step_candidate span' f)) \<le> 6 \<and>
         (\<forall>g \<in> {1, 2, 5, 10}.
            fl64 (span' / to_float (step_candidate span' g)) \<le> 6 \<longrightarrow>
            to_real (step_candidate span' f) \<le> to_real (step_candidate span' g)))) \<and>
   (span' \<le> 0 \<longrightarrow> (\<exists>step. nice_step span' = Inr step \<and> 0 < to_real step))"
proof (intro conjI impI)
  assume "2 powi (- 1000) \<le> span' \<and> span' < 2 powi 1024"
  then have "2 powi (- 1000) \<le> span'" "span' < 2 powi 1024" by blast+
  then show "\<exists>f \<in> {1, 2, 5, 10}.
         nice_step span' = Inr (step_candidate span' f) \<and>
         fl64 (span' / to_float (step_candidate span' f)) \<le> 6 \<and>
         (\<forall>g \<in> {1, 2, 5, 10}.
            fl64 (span' / to_float (step_candidate span' g)) \<le> 6 \<longrightarrow>
            to_real (step_candidate span' f) \<le> to_real (step_candidate span' g))"
    by (rule nice_step_in_range)
next
  assume "span' \<le> 0"
  then have "nice_step span' = Inr (PyInt 1)" by (rule nice_step_nonpositive)
  then show "\<exists>step. nice_step span' = Inr step \<and> 0 < to_real step" by simp
qed

theorem nice_step_smallest_candidate_witness:
  "(2 powi (- 1000) \<le> (400::real) \<and> (400::real) < 2 powi 1024) \<and>
   (\<exists>f \<in> {1, 2, 5, 10}.
      nice_step 400 = Inr (step_candidate 400 f) \<and>
      fl64 (400 / to_float (step_candidate 400 f)) \<le> 6) \<and>
   (0::real) \<le> 0 \<and> (\<exists>step. nice_step 0 = Inr step \<and> 0 < to_real step)"
proof -
  have "(2::real) powi (- 1000) \<le> 2 powi 0" by (rule power_int_increasing) simp_all
  then have h1: "2 powi (- 1000) \<le> (400::real)" by simp
  have "(2::real) powi 9 \<le> 2 powi 1024" by (rule power_int_increasing) simp_all
  moreover have "(400::real) < 2 powi 9" by simp
  ultimately have h2: "(400::real) < 2 powi 1024" by linarith
  have h3: "(0::real) \<le> 0" by simp
  show ?thesis
    using h1 h2 h3 nice_step_smallest_candidate [of 400] nice_step_smallest_candidate [of 0]
    by blast
qed

end
